(* ===== verification/Lab_Prelude.thy ===== *)
theory Lab_Prelude
  imports Main "HOL-Library.Word" "HOL-Library.Monad_Syntax"
begin

text \<open>
  Shared ground of the development: names for the machine types of the Rust code, the ways
  its functions can fail, slice access with the bound checks written out, big-endian codecs
  and the list facts the components share.  Nothing here is specific to one component.
\<close>

unbundle bit_operations_syntax

section \<open>Types\<close>

type_synonym u8 = "8 word"
type_synonym u16 = "16 word"
type_synonym u32 = "32 word"
type_synonym u64 = "64 word"
type_synonym i64 = "64 word"
type_synonym bytes = "u8 list"

text \<open>A panic is a value of the model, so that no total function of HOL hides one.\<close>

datatype panic =
    Index_Out_Of_Bounds
  | Arithmetic_Overflow
  | Assertion_Failed
  | Expect_Failed

type_synonym ('e, 'a) result = "'e + 'a"

named_theorems slice_simps \<open>bound-checked slice access\<close>
named_theorems codec_simps \<open>big-endian encoders and decoders\<close>

section \<open>Results\<close>

text \<open>The question-mark operator: stop at the first error.\<close>

definition and_then :: "('e, 'a) result \<Rightarrow> ('a \<Rightarrow> ('e, 'b) result) \<Rightarrow> ('e, 'b) result" where
  "and_then r f = (case r of Inl e \<Rightarrow> Inl e | Inr a \<Rightarrow> f a)"

definition ok_or :: "'a option \<Rightarrow> 'e \<Rightarrow> ('e, 'a) result" where
  "ok_or m e = (case m of None \<Rightarrow> Inl e | Some a \<Rightarrow> Inr a)"

lemma and_then_simps [simp]:
  "and_then (Inl e) f = Inl e"
  "and_then (Inr a) f = f a"
  by (simp_all add: and_then_def)

lemma ok_or_simps [simp]:
  "ok_or None e = Inl e"
  "ok_or (Some a) e = Inr a"
  by (simp_all add: ok_or_def)

lemma and_then_Inr: "and_then r f = Inr b \<longleftrightarrow> (\<exists>a. r = Inr a \<and> f a = Inr b)"
  by (cases r) auto

lemma and_then_Inl: "and_then r f = Inl e \<longleftrightarrow> r = Inl e \<or> (\<exists>a. r = Inr a \<and> f a = Inl e)"
  by (cases r) auto

lemma ok_or_Inr: "ok_or m e = Inr a \<longleftrightarrow> m = Some a"
  by (cases m) auto

lemma ok_or_Inl: "ok_or m e = Inl e' \<longleftrightarrow> m = None \<and> e' = e"
  by (cases m) auto

lemmas result_iffs = and_then_Inr and_then_Inl ok_or_Inr ok_or_Inl

section \<open>Fallible computations on a world\<close>

text \<open>
  A computation that talks to a device: it takes the state of the outside world and returns
  its result with the new state, or \<open>None\<close> when it never returns.
\<close>

type_synonym ('e, 'w, 'a) io = "'w \<Rightarrow> (('e, 'a) result \<times> 'w) option"

definition io_lift :: "('e, 'a) result \<Rightarrow> ('e, 'w, 'a) io" where
  "io_lift r w = Some (r, w)"

definition io_then :: "('e, 'w, 'a) io \<Rightarrow> ('a \<Rightarrow> ('e, 'w, 'b) io) \<Rightarrow> ('e, 'w, 'b) io" where
  "io_then m f w = (case m w of
     None \<Rightarrow> None
   | Some (Inl e, w') \<Rightarrow> Some (Inl e, w')
   | Some (Inr a, w') \<Rightarrow> f a w')"

lemma io_lift_simp [simp]: "io_lift r w = Some (r, w)"
  by (simp add: io_lift_def)

lemma io_then_Inr:
  "io_then m f w = Some (Inr b, w') \<longleftrightarrow> (\<exists>a v. m w = Some (Inr a, v) \<and> f a v = Some (Inr b, w'))"
  by (auto simp: io_then_def split: option.splits sum.splits)

lemma io_then_Some_Inr [simp]: "m w = Some (Inr a, v) \<Longrightarrow> io_then m f w = f a v"
  by (simp add: io_then_def)

lemma io_then_Some_Inl [simp]: "m w = Some (Inl e, v) \<Longrightarrow> io_then m f w = Some (Inl e, v)"
  by (simp add: io_then_def)

lemma io_then_None [simp]: "m w = None \<Longrightarrow> io_then m f w = None"
  by (simp add: io_then_def)

section \<open>Checked arithmetic\<close>

text \<open>
  \<open>a + b\<close> on \<open>u8\<close>: a debug build panics on overflow (\<open>ovf\<close> holds), a
  release build wraps.  \<^verbatim>\<open>Cargo.toml\<close> leaves the release default.
\<close>

definition add_u8 :: "bool \<Rightarrow> u8 \<Rightarrow> u8 \<Rightarrow> (panic, u8) result" where
  "add_u8 ovf a b =
     (if ovf \<and> 256 \<le> unat a + unat b then Inl Arithmetic_Overflow else Inr (a + b))"

section \<open>Slices\<close>

text \<open>\<open>slice.get(i)\<close> and \<open>slice.get(a..b)\<close>: \<open>None\<close> out of range.\<close>

definition get_at :: "'a list \<Rightarrow> nat \<Rightarrow> 'a option" where
  "get_at xs i = (if i < length xs then Some (xs ! i) else None)"

definition get_range :: "'a list \<Rightarrow> nat \<Rightarrow> nat \<Rightarrow> 'a list option" where
  "get_range xs a b = (if a \<le> b \<and> b \<le> length xs then Some (take (b - a) (drop a xs)) else None)"

text \<open>\<open>copy_from_slice\<close> into the window that starts at \<open>i\<close>.\<close>

definition blit :: "'a list \<Rightarrow> nat \<Rightarrow> 'a list \<Rightarrow> 'a list" where
  "blit xs i ys = take i xs @ ys @ drop (i + length ys) xs"

lemma get_at_Nil [simp, slice_simps]: "get_at [] i = None"
  by (simp add: get_at_def)

lemma get_at_Cons_0 [simp, slice_simps]: "get_at (x # xs) 0 = Some x"
  by (simp add: get_at_def)

lemma get_at_Cons_Suc [simp, slice_simps]: "get_at (x # xs) (Suc i) = get_at xs i"
  by (simp add: get_at_def)

lemma get_at_Some: "get_at xs i = Some x \<longleftrightarrow> i < length xs \<and> xs ! i = x"
  by (auto simp: get_at_def)

lemma get_at_None: "get_at xs i = None \<longleftrightarrow> length xs \<le> i"
  by (auto simp: get_at_def)

lemma get_range_Some:
  "get_range xs a b = Some ys \<longleftrightarrow> a \<le> b \<and> b \<le> length xs \<and> ys = take (b - a) (drop a xs)"
  by (auto simp: get_range_def)

lemma get_range_window [slice_simps]:
  "length hs = a \<Longrightarrow> b = a + length ys \<Longrightarrow> get_range (hs @ ys @ zs) a b = Some ys"
  by (simp add: get_range_def)

lemma length_blit [simp]: "i + length ys \<le> length xs \<Longrightarrow> length (blit xs i ys) = length xs"
  by (simp add: blit_def)

section \<open>Big-endian integers\<close>

definition be16 :: "u16 \<Rightarrow> bytes" where
  "be16 w = [word_of_nat (unat w div 256), word_of_nat (unat w)]"

definition from_be16 :: "u8 \<Rightarrow> u8 \<Rightarrow> u16" where
  "from_be16 a b = word_of_nat (unat a * 256 + unat b)"

definition be32 :: "u32 \<Rightarrow> bytes" where
  "be32 w = [word_of_nat (unat w div 16777216), word_of_nat (unat w div 65536),
             word_of_nat (unat w div 256), word_of_nat (unat w)]"

definition from_be32 :: "u8 \<Rightarrow> u8 \<Rightarrow> u8 \<Rightarrow> u8 \<Rightarrow> u32" where
  "from_be32 a b c d =
     word_of_nat (unat a * 16777216 + unat b * 65536 + unat c * 256 + unat d)"

lemma unat_u8_bound: "unat (b :: u8) < 256"
  using unsigned_less [of b] by simp

lemma unat_u16_bound: "unat (w :: u16) < 65536"
  using unsigned_less [of w] by simp

lemma unat_u32_bound: "unat (w :: u32) < 4294967296"
  using unsigned_less [of w] by simp

lemma unat_of_nat_u8: "unat (word_of_nat n :: u8) = n mod 256"
  by (simp add: unat_of_nat)

lemma unat_of_nat_u16: "unat (word_of_nat n :: u16) = n mod 65536"
  by (simp add: unat_of_nat)

lemma unat_of_nat_u32: "unat (word_of_nat n :: u32) = n mod 4294967296"
  by (simp add: unat_of_nat)

lemmas unat_of_nat_uN = unat_of_nat_u8 unat_of_nat_u16 unat_of_nat_u32

lemma unat_ucast_u8_u16: "unat (ucast (b :: u8) :: u16) = unat b"
  using unat_u8_bound [of b] by (simp add: unsigned_ucast_eq take_bit_eq_mod)

lemma length_be16 [simp]: "length (be16 w) = 2"
  by (simp add: be16_def)

lemma length_be32 [simp]: "length (be32 w) = 4"
  by (simp add: be32_def)

lemma unat_from_be16: "unat (from_be16 a b) = unat a * 256 + unat b"
proof -
  have "unat a * 256 + unat b < 65536"
    using unat_u8_bound [of a] unat_u8_bound [of b] by linarith
  then show ?thesis
    unfolding from_be16_def unat_of_nat_u16 by (rule mod_less)
qed

lemma unat_from_be32:
  "unat (from_be32 a b c d) = unat a * 16777216 + unat b * 65536 + unat c * 256 + unat d"
proof -
  have "unat a * 16777216 + unat b * 65536 + unat c * 256 + unat d < 4294967296"
    using unat_u8_bound [of a] unat_u8_bound [of b] unat_u8_bound [of c] unat_u8_bound [of d]
    by linarith
  then show ?thesis
    unfolding from_be32_def unat_of_nat_u32 by (rule mod_less)
qed

text \<open>Decoding an encoded word gives it back.\<close>

lemma nat_be16_digits: "n < 65536 \<Longrightarrow> n div 256 mod 256 * 256 + n mod 256 = (n :: nat)"
  by (simp add: mod_less div_mult_mod_eq less_mult_imp_div_less)

lemma nat_be32_digits:
  assumes "n < (4294967296 :: nat)"
  shows "n div 16777216 mod 256 * 16777216 + n div 65536 mod 256 * 65536
           + n div 256 mod 256 * 256 + n mod 256 = n"
proof -
  have "n div 16777216 < 256"
    using assms by (simp add: less_mult_imp_div_less)
  moreover have "n div 16777216 = n div 256 div 256 div 256" "n div 65536 = n div 256 div 256"
    by (simp_all add: div_mult2_eq [symmetric])
  moreover have "n = n div 256 * 256 + n mod 256"
      "n div 256 = n div 256 div 256 * 256 + n div 256 mod 256"
      "n div 256 div 256 = n div 256 div 256 div 256 * 256 + n div 256 div 256 mod 256"
    by (rule div_mult_mod_eq [symmetric])+
  ultimately show ?thesis
    by (simp only: mod_less)
qed

lemma from_be16_be16 [codec_simps]: "from_be16 (be16 w ! 0) (be16 w ! 1) = w"
proof (rule word_unat_eq_iff [THEN iffD2])
  have "unat (from_be16 (be16 w ! 0) (be16 w ! 1)) = unat w div 256 mod 256 * 256 + unat w mod 256"
    unfolding unat_from_be16 be16_def
    by (simp only: nth_Cons_0 nth_Cons_Suc One_nat_def unat_of_nat_u8)
  then show "unat (from_be16 (be16 w ! 0) (be16 w ! 1)) = unat w"
    using nat_be16_digits [OF unat_u16_bound] by simp
qed

lemma from_be32_be32 [codec_simps]:
  "from_be32 (be32 w ! 0) (be32 w ! 1) (be32 w ! 2) (be32 w ! 3) = w"
proof (rule word_unat_eq_iff [THEN iffD2])
  have "unat (from_be32 (be32 w ! 0) (be32 w ! 1) (be32 w ! 2) (be32 w ! 3)) =
      unat w div 16777216 mod 256 * 16777216 + unat w div 65536 mod 256 * 65536
        + unat w div 256 mod 256 * 256 + unat w mod 256"
    unfolding unat_from_be32 be32_def
    by (simp only: nth_Cons_0 nth_Cons_Suc One_nat_def numeral_2_eq_2 numeral_3_eq_3
        unat_of_nat_u8)
  then show "unat (from_be32 (be32 w ! 0) (be32 w ! 1) (be32 w ! 2) (be32 w ! 3)) = unat w"
    using nat_be32_digits [OF unat_u32_bound] by simp
qed

text \<open>Encoding decoded bytes gives them back.\<close>

lemma word_of_nat_u8_eq: "n mod 256 = unat (b :: u8) \<Longrightarrow> word_of_nat n = b"
  by (rule word_unat_eq_iff [THEN iffD2]) (simp only: unat_of_nat_u8)

lemma be32_from_be32 [codec_simps]: "be32 (from_be32 a b c d) = [a, b, c, d]"
proof -
  have digit: "(h * 256 + d) div 256 = h" "(h * 256 + d) mod 256 = d" if "d < 256" for h d :: nat
    using that by simp_all
  note bound = unat_u8_bound [of a] unat_u8_bound [of b] unat_u8_bound [of c] unat_u8_bound [of d]
  define h2 where "h2 = unat a * 256 + unat b"
  define h1 where "h1 = h2 * 256 + unat c"
  let ?n = "unat a * 16777216 + unat b * 65536 + unat c * 256 + unat d"
  have n: "?n = h1 * 256 + unat d" by (simp add: h1_def h2_def)
  have "?n div 16777216 = ?n div 256 div 256 div 256" "?n div 65536 = ?n div 256 div 256"
    by (simp_all add: div_mult2_eq [symmetric])
  then have "?n div 16777216 = unat a" "?n div 65536 = h2" "?n div 256 = h1"
    unfolding n by (simp_all only: digit bound h1_def h2_def)
  moreover have "h1 mod 256 = unat c" "h2 mod 256 = unat b" "?n mod 256 = unat d"
    unfolding n by (simp_all only: digit bound h1_def h2_def)
  moreover have "unat a mod 256 = unat a" using bound by simp
  ultimately show ?thesis
    unfolding be32_def unat_from_be32 by (simp only: word_of_nat_u8_eq)
qed

text \<open>\<open>(hi << 8) | lo\<close> on \<open>usize\<close>.\<close>

lemma push_bit_or_byte [codec_simps]: "b < 256 \<Longrightarrow> push_bit 8 a OR b = a * 256 + (b :: nat)"
proof -
  assume "b < 256"
  then have tb: "take_bit 8 b = b" by (simp add: take_bit_nat_eq_self_iff)
  have "push_bit 8 a + b = push_bit 8 a OR b"
    by (rule disjunctive_add_eq_or, rule bit_eqI, subst tb [symmetric]) (simp add: bit_simps)
  then show ?thesis by (simp add: push_bit_eq_mult)
qed

end
