(* ===== verification/Rust_Str.thy ===== *)
theory Rust_Str
  imports Lab_Prelude "HOL-Library.Sublist"
begin

text \<open>
  The part of Rust's \<open>str\<close> and \<open>format!\<close> that the program uses.  A \<open>String\<close> is
  the list of its UTF-8 bytes, one \<^typ>\<open>char\<close> per byte, so that string literals read as
  in the source and \<open>len()\<close> is \<^const>\<open>length\<close>.  \<open>String::from_utf8_lossy\<close> follows
  the standard library's rule: every maximal invalid prefix becomes one U+FFFD.
\<close>

section \<open>Bytes and characters\<close>

definition u8_of_char :: "char \<Rightarrow> u8" where
  "u8_of_char c = word_of_nat (of_char c)"

definition char_of_u8 :: "u8 \<Rightarrow> char" where
  "char_of_u8 b = char_of (unat b)"

definition str_of_bytes :: "bytes \<Rightarrow> string" where
  "str_of_bytes bs = map char_of_u8 bs"

definition bytes_of_str :: "string \<Rightarrow> bytes" where
  "bytes_of_str s = map u8_of_char s"

lemma u8_of_char_of_u8 [simp]: "u8_of_char (char_of_u8 b) = b"
  by (simp add: u8_of_char_def char_of_u8_def of_char_of mod_less unat_u8_bound
      word_unat_eq_iff unat_of_nat_u8 del: of_nat_unat)

lemma char_of_u8_of_char [simp]: "char_of_u8 (u8_of_char c) = c"
  by (simp add: u8_of_char_def char_of_u8_def unat_of_nat_u8)

lemma char_of_u8_eq [simp]: "char_of_u8 a = char_of_u8 b \<longleftrightarrow> a = b"
  by (metis u8_of_char_of_u8)

lemma str_of_bytes_simps [simp]:
  "str_of_bytes [] = []"
  "str_of_bytes (b # bs) = char_of_u8 b # str_of_bytes bs"
  "str_of_bytes (bs @ cs) = str_of_bytes bs @ str_of_bytes cs"
  "length (str_of_bytes bs) = length bs"
  by (simp_all add: str_of_bytes_def)

lemma bytes_of_str_of_bytes [simp]: "bytes_of_str (str_of_bytes bs) = bs"
  by (simp add: bytes_of_str_def str_of_bytes_def comp_def)

lemma str_of_bytes_of_str [simp]: "str_of_bytes (bytes_of_str s) = s"
  by (simp add: bytes_of_str_def str_of_bytes_def comp_def)

section \<open>Lossy UTF-8 decoding\<close>

definition utf8_cont :: "bytes \<Rightarrow> nat \<Rightarrow> bool" where
  "utf8_cont bs i = (case get_at bs i of None \<Rightarrow> False | Some b \<Rightarrow> 128 \<le> b \<and> b \<le> 191)"

definition utf8_second :: "bytes \<Rightarrow> u8 \<Rightarrow> u8 \<Rightarrow> bool" where
  "utf8_second bs lo hi = (case get_at bs 1 of None \<Rightarrow> False | Some b \<Rightarrow> lo \<le> b \<and> b \<le> hi)"

text \<open>
  The next sequence of a non-empty buffer: how many bytes it takes and whether they are a
  well-formed scalar value.
\<close>

definition utf8_seq :: "bytes \<Rightarrow> nat \<times> bool" where
  "utf8_seq bs = (case bs of [] \<Rightarrow> (0, True) | b # _ \<Rightarrow>
     if b < 128 then (1, True)
     else if 194 \<le> b \<and> b \<le> 223 then (if utf8_cont bs 1 then (2, True) else (1, False))
     else if 224 \<le> b \<and> b \<le> 239 then
       (if utf8_second bs (if b = 224 then 160 else 128) (if b = 237 then 159 else 191)
        then (if utf8_cont bs 2 then (3, True) else (2, False)) else (1, False))
     else if 240 \<le> b \<and> b \<le> 244 then
       (if utf8_second bs (if b = 240 then 144 else 128) (if b = 244 then 143 else 191)
        then (if utf8_cont bs 2 then (if utf8_cont bs 3 then (4, True) else (3, False))
              else (2, False))
        else (1, False))
     else (1, False))"

definition replacement_char :: bytes where
  "replacement_char = [239, 191, 189]"

lemma utf8_seq_progress: "bs \<noteq> [] \<Longrightarrow> 0 < fst (utf8_seq bs)"
  by (cases bs)
    (simp_all add: utf8_seq_def if_distrib [of fst] if_distrib [of "\<lambda>n. 0 < n"]
      cong: if_cong)

lemma utf8_seq_shorter:
  assumes "bs \<noteq> []" and "(n, ok) = utf8_seq bs"
  shows "length (drop n bs) < length bs"
  using assms(1) utf8_seq_progress [OF assms(1)] by (simp flip: assms(2))

function utf8_lossy :: "bytes \<Rightarrow> bytes" where
  "utf8_lossy bs =
     (if bs = [] then []
      else case utf8_seq bs of (n, ok) \<Rightarrow>
        (if ok then take n bs else replacement_char) @ utf8_lossy (drop n bs))"
  by pat_completeness auto
termination
  by (relation "measure length") (simp_all add: utf8_seq_shorter del: length_drop)

declare utf8_lossy.simps [simp del]

function utf8_valid :: "bytes \<Rightarrow> bool" where
  "utf8_valid bs =
     (if bs = [] then True
      else case utf8_seq bs of (n, ok) \<Rightarrow> ok \<and> utf8_valid (drop n bs))"
  by pat_completeness auto
termination
  by (relation "measure length") (simp_all add: utf8_seq_shorter del: length_drop)

declare utf8_valid.simps [simp del]

definition from_utf8_lossy :: "bytes \<Rightarrow> string" where
  "from_utf8_lossy bs = str_of_bytes (utf8_lossy bs)"

lemma utf8_lossy_Nil [simp]: "utf8_lossy [] = []"
  by (simp add: utf8_lossy.simps)

lemma utf8_valid_Nil [simp]: "utf8_valid []"
  by (simp add: utf8_valid.simps)

lemma utf8_seq_ascii: "b < 128 \<Longrightarrow> utf8_seq (b # bs) = (1, True)"
  by (simp only: utf8_seq_def list.case if_True)

lemma utf8_lossy_ascii [simp]: "b < 128 \<Longrightarrow> utf8_lossy (b # bs) = b # utf8_lossy bs"
  by (subst utf8_lossy.simps) (simp only: utf8_seq_ascii, simp)

text \<open>Valid text is passed through unchanged.\<close>

lemma utf8_lossy_valid: "utf8_valid bs \<Longrightarrow> utf8_lossy bs = bs"
proof (induction bs rule: utf8_valid.induct)
  case (1 bs)
  show ?case
  proof (cases "bs = []")
    case False
    obtain n ok where seq: "utf8_seq bs = (n, ok)" by force
    with False "1.prems" have "ok" "utf8_valid (drop n bs)"
      by (simp_all add: utf8_valid.simps [of bs])
    with "1.IH" False seq show ?thesis
      by (simp add: utf8_lossy.simps [of bs])
  qed simp
qed

section \<open>Searching and trimming\<close>

text \<open>\<open>str::contains\<close> with a string pattern.\<close>

fun str_contains :: "string \<Rightarrow> string \<Rightarrow> bool" where
  "str_contains [] want = (want = [])"
| "str_contains (c # cs) want = (prefix want (c # cs) \<or> str_contains cs want)"

lemma str_contains_iff: "str_contains s want \<longleftrightarrow> sublist want s"
  by (induction s) (auto simp: sublist_Cons_right)

text \<open>\<open>trim_end_matches([..])\<close>: drop trailing characters of the set.\<close>

definition trim_end_matches :: "char list \<Rightarrow> string \<Rightarrow> string" where
  "trim_end_matches cs s = rev (dropWhile (\<lambda>c. c \<in> set cs) (rev s))"

lemma trim_end_matches_last: "trim_end_matches cs s \<noteq> [] \<Longrightarrow> last (trim_end_matches cs s) \<notin> set cs"
  unfolding trim_end_matches_def
  by (metis hd_dropWhile last_rev rev_is_Nil_conv)

lemma trim_end_matches_append:
  "set t \<subseteq> set cs \<Longrightarrow> (s = [] \<or> last s \<notin> set cs) \<Longrightarrow> trim_end_matches cs (s @ t) = s"
  by (cases s rule: rev_cases)
    (auto simp: trim_end_matches_def dropWhile_append2 dropWhile_append subset_iff)

section \<open>Trimming white space\<close>

text \<open>\<open>str::trim\<close>: the UTF-8 encodings of the characters with the White_Space property.\<close>

definition white_space_codes :: "nat list list" where
  "white_space_codes =
     [[9], [10], [11], [12], [13], [32 :: nat], [0xc2, 0x85], [0xc2, 0xa0], [0xe1, 0x9a, 0x80],
      [0xe2, 0x80, 0x80], [0xe2, 0x80, 0x81], [0xe2, 0x80, 0x82], [0xe2, 0x80, 0x83],
      [0xe2, 0x80, 0x84], [0xe2, 0x80, 0x85], [0xe2, 0x80, 0x86], [0xe2, 0x80, 0x87],
      [0xe2, 0x80, 0x88], [0xe2, 0x80, 0x89], [0xe2, 0x80, 0x8a], [0xe2, 0x80, 0xa8],
      [0xe2, 0x80, 0xa9], [0xe2, 0x80, 0xaf], [0xe2, 0x81, 0x9f], [0xe3, 0x80, 0x80]]"

definition white_space :: "string list" where
  "white_space = map (map char_of) white_space_codes"

function strip_prefixes :: "string list \<Rightarrow> string \<Rightarrow> string" where
  "strip_prefixes ps s =
     (case find (\<lambda>p. p \<noteq> [] \<and> prefix p s) ps of
        None \<Rightarrow> s
      | Some p \<Rightarrow> strip_prefixes ps (drop (length p) s))"
  by pat_completeness auto
termination
  by (relation "measure (\<lambda>(ps, s). length s)") (auto simp: find_Some_iff prefix_def)

declare strip_prefixes.simps [simp del]

definition str_trim :: "string \<Rightarrow> string" where
  "str_trim s =
     rev (strip_prefixes (map rev white_space) (rev (strip_prefixes white_space s)))"

lemma strip_prefixes_stop:
  "\<forall>p\<in>set ps. prefix p s \<longrightarrow> p = [] \<Longrightarrow> strip_prefixes ps s = s"
  by (subst strip_prefixes.simps) (auto split: option.split simp: find_Some_iff)

text \<open>A set of codes none of which is a prefix of another strips a padding code by code.\<close>

lemma strip_prefixes_pad:
  assumes "\<forall>p\<in>set ps. \<forall>q\<in>set ps. prefix p q \<longrightarrow> p = q" "[] \<notin> set ps" "set pad \<subseteq> set ps"
  shows "strip_prefixes ps (concat pad @ s) = strip_prefixes ps s"
  using assms(3)
proof (induction pad)
  case (Cons p pad)
  have "find (\<lambda>q. q \<noteq> [] \<and> prefix q (concat (p # pad) @ s)) ps = Some p"
  proof (cases "find (\<lambda>q. q \<noteq> [] \<and> prefix q (concat (p # pad) @ s)) ps")
    case None
    with Cons.prems assms(2) show ?thesis by (auto simp: find_None_iff)
  next
    case (Some q)
    then have "q \<in> set ps" "prefix q (p @ concat pad @ s)" by (auto simp: find_Some_iff)
    moreover have "p \<in> set ps" using Cons.prems by simp
    ultimately have "q = p"
      using assms(1) prefix_same_cases [of q "p @ concat pad @ s" p] by auto
    with Some show ?thesis by simp
  qed
  then have "strip_prefixes ps (concat (p # pad) @ s) = strip_prefixes ps (concat pad @ s)"
    by (subst strip_prefixes.simps) simp
  with Cons show ?case by simp
qed simp

definition hex_codes :: "nat list" where
  "hex_codes = [48..<58] @ [97..<103] @ [65..<71]"

definition hex_chars :: string where
  "hex_chars = map char_of hex_codes"

lemma white_space_codes_facts:
  "\<forall>p\<in>set white_space_codes. \<forall>q\<in>set white_space_codes. prefix p q \<longrightarrow> p = q"
  "\<forall>p\<in>set white_space_codes. \<forall>q\<in>set white_space_codes. prefix (rev p) (rev q) \<longrightarrow> p = q"
  "\<forall>p\<in>set white_space_codes. p \<noteq> [] \<and> hd p \<notin> set hex_codes \<and> last p \<notin> set hex_codes
    \<and> (\<forall>n\<in>set p. n < 256)"
  "\<forall>n\<in>set hex_codes. n < 256"
  by (simp_all add: white_space_codes_def hex_codes_def)

lemma char_of_less_256: "m < 256 \<Longrightarrow> n < 256 \<Longrightarrow> char_of m = (char_of n :: char) \<longleftrightarrow> m = (n :: nat)"
  by (metis mod_less of_char_of)

lemma map_char_of_eq:
  "\<forall>n\<in>set p. n < 256 \<Longrightarrow> \<forall>n\<in>set q. n < 256 \<Longrightarrow>
   map char_of p = (map char_of q :: string) \<longleftrightarrow> p = (q :: nat list)"
  by (rule inj_on_map_eq_map) (auto simp: inj_on_def char_of_less_256)

lemma prefix_map_char_of:
  assumes "prefix (map char_of p) (map char_of q :: string)"
    "\<forall>n\<in>set p. n < 256" "\<forall>n\<in>set q. n < (256 :: nat)"
  shows "prefix p q"
proof -
  obtain p' where p': "prefix p' q" "map char_of p = (map char_of p' :: string)"
    using prefix_map_rightE [OF assms(1)] by blast
  moreover have "\<forall>n\<in>set p'. n < 256" using p'(1) assms(3) by (meson set_mono_prefix subset_iff)
  ultimately show ?thesis using map_char_of_eq [OF assms(2)] by blast
qed

lemma char_of_hex_chars:
  assumes "n < (256 :: nat)" "n \<notin> set hex_codes"
  shows "char_of n \<notin> set hex_chars"
  using assms white_space_codes_facts(4) by (auto simp: hex_chars_def char_of_less_256)

lemma white_space_code:
  "\<forall>p\<in>set white_space. \<forall>q\<in>set white_space. prefix p q \<longrightarrow> p = q"
  "\<forall>p\<in>set (map rev white_space). \<forall>q\<in>set (map rev white_space). prefix p q \<longrightarrow> p = q"
  "[] \<notin> set white_space" "[] \<notin> set (map rev white_space)"
  "\<forall>p\<in>set white_space. hd p \<notin> set hex_chars"
  "\<forall>p\<in>set (map rev white_space). hd p \<notin> set hex_chars"
proof -
  note facts = white_space_codes_facts
  have ends: "\<forall>p\<in>set white_space_codes.
      char_of (hd p) \<notin> set hex_chars \<and> char_of (last p) \<notin> set hex_chars"
  proof
    fix p assume "p \<in> set white_space_codes"
    with facts(3) have "p \<noteq> []" "hd p \<notin> set hex_codes" "last p \<notin> set hex_codes"
      "\<forall>n\<in>set p. n < 256" by blast+
    then show "char_of (hd p) \<notin> set hex_chars \<and> char_of (last p) \<notin> set hex_chars"
      by (simp add: char_of_hex_chars)
  qed
  show "\<forall>p\<in>set white_space. \<forall>q\<in>set white_space. prefix p q \<longrightarrow> p = q"
    using prefix_map_char_of facts(1,3) unfolding white_space_def by (auto simp: map_char_of_eq)
  show "\<forall>p\<in>set (map rev white_space). \<forall>q\<in>set (map rev white_space). prefix p q \<longrightarrow> p = q"
    using prefix_map_char_of [of "rev p" "rev q" for p q] facts(2,3)
    unfolding white_space_def by (auto simp: rev_map map_char_of_eq)
  show "[] \<notin> set white_space" "[] \<notin> set (map rev white_space)"
    using facts(3) by (auto simp: white_space_def)
  show "\<forall>p\<in>set white_space. hd p \<notin> set hex_chars"
    using ends by (simp add: white_space_def hd_map facts(3))
  show "\<forall>p\<in>set (map rev white_space). hd p \<notin> set hex_chars"
    using ends by (simp add: white_space_def hd_rev last_map facts(3))
qed

lemma strip_hex:
  assumes "\<forall>p\<in>set ps. hd p \<notin> set hex_chars" "s \<noteq> []" "hd s \<in> set hex_chars"
  shows "strip_prefixes ps s = s"
  using assms by (intro strip_prefixes_stop) (auto simp: prefix_def)

text \<open>Any padding of white space around hexadecimal text is removed, and nothing else.\<close>

lemma str_trim_pad:
  assumes "set pad \<subseteq> set white_space" "set pad' \<subseteq> set white_space"
    "s \<noteq> []" "set s \<subseteq> set hex_chars"
  shows "str_trim (concat pad @ s @ concat pad') = s"
proof -
  have "strip_prefixes white_space (concat pad @ s @ concat pad') = s @ concat pad'"
    unfolding strip_prefixes_pad [OF white_space_code(1,3) assms(1)]
    using assms(3,4) by (intro strip_hex white_space_code(5)) auto
  moreover have "rev (s @ concat pad') = concat (rev (map rev pad')) @ rev s"
    by (simp add: rev_concat rev_map)
  moreover have "strip_prefixes (map rev white_space) (concat (rev (map rev pad')) @ rev s) = rev s"
  proof -
    have "set (rev (map rev pad')) \<subseteq> set (map rev white_space)" using assms(2) by auto
    from strip_prefixes_pad [OF white_space_code(2,4) this, of "rev s"] show ?thesis
      using assms(3,4) by (simp only:) (intro strip_hex white_space_code(6); auto simp: hd_rev)
  qed
  ultimately show ?thesis by (simp add: str_trim_def)
qed

section \<open>Hexadecimal formatting\<close>

definition hex_digit :: "nat \<Rightarrow> char" where
  "hex_digit n = (if n < 10 then char_of (48 + n) else char_of (87 + n))"

text \<open>\<open>{b:02x}\<close> of one byte.\<close>

definition hex02 :: "u8 \<Rightarrow> string" where
  "hex02 b = [hex_digit (unat b div 16), hex_digit (unat b mod 16)]"

definition hex_encode :: "bytes \<Rightarrow> string" where
  "hex_encode bs = concat (map hex02 bs)"

text \<open>
  The \<open>hex\<close> crate is a parameter of the components that use it; this is the instance their
  witnesses take: two digits of either case per byte.
\<close>

definition hex_value :: "char \<Rightarrow> nat option" where
  "hex_value c =
     (let n = of_char c in
      if 48 \<le> n \<and> n \<le> 57 then Some (n - 48)
      else if 97 \<le> n \<and> n \<le> 102 then Some (n - 87)
      else if 65 \<le> n \<and> n \<le> 70 then Some (n - 55)
      else None)"

fun hex_decode :: "string \<Rightarrow> bytes option" where
  "hex_decode [] = Some []"
| "hex_decode [c] = None"
| "hex_decode (c # d # cs) =
     (case (hex_value c, hex_value d) of
        (Some h, Some l) \<Rightarrow> map_option ((#) (word_of_nat (h * 16 + l))) (hex_decode cs)
      | _ \<Rightarrow> None)"

lemma hex_digit_value: "n < 16 \<Longrightarrow> hex_value (hex_digit n) = Some n"
  by (auto simp: hex_value_def hex_digit_def of_char_of Let_def)

lemma hex_digit_chars: "n < 16 \<Longrightarrow> hex_digit n \<in> set hex_chars"
  unfolding hex_digit_def hex_chars_def by (auto simp: hex_codes_def intro!: imageI)

lemma hex_encode_chars: "set (hex_encode bs) \<subseteq> set hex_chars"
proof -
  have "set (hex02 b) \<subseteq> set hex_chars" for b
    using unat_u8_bound [of b] by (auto simp: hex02_def intro!: hex_digit_chars)
  then show ?thesis by (auto simp: hex_encode_def)
qed

lemma length_hex_encode [simp]: "length (hex_encode bs) = 2 * length bs"
  by (induction bs) (simp_all add: hex_encode_def hex02_def)

lemma hex_encode_Nil [simp]: "hex_encode bs = [] \<longleftrightarrow> bs = []"
  by (cases bs) (simp_all add: hex_encode_def hex02_def)

lemma hex_decode_encode: "hex_decode (hex_encode bs) = Some bs"
proof (induction bs)
  case (Cons b bs)
  have "unat b div 16 < 16" "unat b mod 16 < 16" using unat_u8_bound [of b] by auto
  then have "hex_decode (hex_encode (b # bs))
      = map_option ((#) (word_of_nat (unat b div 16 * 16 + unat b mod 16))) (hex_decode (hex_encode bs))"
    by (simp add: hex_encode_def hex02_def hex_digit_value del: of_nat_add of_nat_mult)
  with Cons show ?case by (simp only: div_mult_mod_eq) simp
qed (simp add: hex_encode_def)

section \<open>Decimal numbers\<close>

definition digit_value :: "char \<Rightarrow> nat option" where
  "digit_value c = (let n = of_char c in if 48 \<le> n \<and> n \<le> 57 then Some (n - 48) else None)"

fun digits_value :: "nat \<Rightarrow> string \<Rightarrow> nat option" where
  "digits_value acc [] = Some acc"
| "digits_value acc (c # cs) = (case digit_value c of None \<Rightarrow> None | Some d \<Rightarrow> digits_value (10 * acc + d) cs)"

text \<open>\<open>parse::<u32>()\<close>: an optional plus sign, at least one digit, no overflow.\<close>

definition parse_u32 :: "string \<Rightarrow> u32 option" where
  "parse_u32 s =
     (let ds = (case s of c # cs \<Rightarrow> if c = CHR ''+'' then cs else s | [] \<Rightarrow> s) in
      if ds = [] then None
      else case digits_value 0 ds of
        None \<Rightarrow> None
      | Some n \<Rightarrow> if n < 4294967296 then Some (word_of_nat n) else None)"

fun show_nat :: "nat \<Rightarrow> string" where
  "show_nat n = (if n < 10 then [char_of (48 + n)] else show_nat (n div 10) @ [char_of (48 + n mod 10)])"

declare show_nat.simps [simp del]

lemma digit_value_digit: "d < 10 \<Longrightarrow> digit_value (char_of (48 + d)) = Some d"
  by (simp add: digit_value_def Let_def)

lemma digits_value_snoc:
  "digits_value acc (s @ [c]) =
     Option.bind (digits_value acc s) (\<lambda>n. map_option (\<lambda>d. 10 * n + d) (digit_value c))"
  by (induction s arbitrary: acc) (auto split: option.splits)

lemma digits_value_show: "digits_value 0 (show_nat n) = Some n"
proof (induction n rule: show_nat.induct)
  case (1 n)
  then show ?case
    by (cases "n < 10") (simp_all add: show_nat.simps [of n] digits_value_snoc digit_value_digit)
qed

lemma show_nat_hd: "\<exists>c cs. show_nat n = c # cs \<and> c \<noteq> CHR ''+''"
proof (induction n rule: show_nat.induct)
  case (1 n)
  have "char_of (48 + n) \<noteq> CHR ''+''" if "n < 10"
  proof
    assume "char_of (48 + n) = CHR ''+''"
    then have "of_char (char_of (48 + n) :: char) = (of_char CHR ''+'' :: nat)" by (rule arg_cong)
    with that show False by simp
  qed
  with 1 show ?case by (cases "n < 10") (auto simp: show_nat.simps [of n])
qed

lemma parse_show_u32: "parse_u32 (show_nat (unat w)) = Some w"
  using show_nat_hd [of "unat w"] digits_value_show [of "unat w"] unat_u32_bound [of w]
  by (auto simp: parse_u32_def)

section \<open>Splitting\<close>

text \<open>\<open>s.rsplit(c).next()\<close>: what follows the last \<open>c\<close>, or everything.\<close>

definition after_last :: "char \<Rightarrow> string \<Rightarrow> string" where
  "after_last c s = rev (takeWhile (\<lambda>d. d \<noteq> c) (rev s))"

lemma takeWhile_absent: "c \<notin> set s \<Longrightarrow> takeWhile (\<lambda>d. d \<noteq> c) (s @ t) = s @ takeWhile (\<lambda>d. d \<noteq> c) t"
  by (rule takeWhile_append2) auto

lemma after_last_absent: "c \<notin> set s \<Longrightarrow> after_last c s = s"
  unfolding after_last_def by (subst takeWhile_eq_all_conv [THEN iffD2]) auto

lemma after_last_append: "c \<notin> set s \<Longrightarrow> after_last c (p @ c # s) = s"
  using takeWhile_absent [of c "rev s" "c # rev p"] by (simp add: after_last_def)

lemma colon_code: "CHR 0x3a = char_of (58 :: nat)"
  by code_simp

lemma white_space_no_colon: "set p \<subseteq> set white_space \<Longrightarrow> CHR 0x3a \<notin> set (concat p)"
proof -
  have "\<forall>w\<in>set white_space_codes. \<forall>n\<in>set w. n < 256 \<and> n \<noteq> 58"
    by (simp add: white_space_codes_def)
  then have "\<forall>w\<in>set white_space. char_of (58 :: nat) \<notin> set w"
    by (auto simp: white_space_def char_of_less_256)
  then show "set p \<subseteq> set white_space \<Longrightarrow> CHR 0x3a \<notin> set (concat p)"
    unfolding colon_code by auto
qed

lemma hex_chars_no_colon: "CHR 0x3a \<notin> set hex_chars"
  unfolding colon_code by (rule char_of_hex_chars) (simp_all add: hex_codes_def)

end
