(* ===== verification/Codec.thy ===== *)
theory Codec
  imports Lab_Prelude
begin

text \<open>
  The interface of a self-delimiting wire format: an encoder and a decoder that peels one
  value off the front of a buffer and hands the rest back.  Three formats of the program
  have this shape: the 4-byte length-prefixed TCP frames of the backend and of the v1
  client, the BER-TLV objects of the PIV applet and the terminated records of the device
  log.  Their clients all do the same thing, peel values until the buffer is used up;
  \<open>decode_all\<close> is that loop, and the locale proves once what it yields.
\<close>

section \<open>Peeling a whole buffer\<close>

function decode_all :: "('b list \<Rightarrow> ('a \<times> 'b list) option) \<Rightarrow> 'b list \<Rightarrow> 'a list \<times> 'b list" where
  "decode_all dec s =
     (case dec s of
        None \<Rightarrow> ([], s)
      | Some (a, r) \<Rightarrow>
          if length r < length s
          then (case decode_all dec r of (as, rest) \<Rightarrow> (a # as, rest))
          else ([], s))"
  by pat_completeness auto
termination
  by (relation "measure (\<lambda>(dec, s). length s)") auto

declare decode_all.simps [simp del]

lemma decode_all_None: "dec s = None \<Longrightarrow> decode_all dec s = ([], s)"
  by (simp add: decode_all.simps)

lemma decode_all_Some:
  "dec s = Some (a, r) \<Longrightarrow> length r < length s \<Longrightarrow>
   decode_all dec s = (a # fst (decode_all dec r), snd (decode_all dec r))"
  by (simp add: decode_all.simps [of dec s] split: prod.split)

section \<open>The contract\<close>

locale prefix_codec =
  fixes enc :: "'a \<Rightarrow> 'b list"
    and dec :: "'b list \<Rightarrow> ('a \<times> 'b list) option"
    and ok :: "'a \<Rightarrow> bool"
  assumes dec_enc: "ok a \<Longrightarrow> dec (enc a @ rest) = Some (a, rest)"
    and dec_shrinks: "dec s = Some (a, r) \<Longrightarrow> length r < length s"
begin

lemma dec_Nil: "dec [] = None"
  using dec_shrinks [of "[]"] by (cases "dec []") auto

lemma enc_nonempty: "ok a \<Longrightarrow> enc a \<noteq> []"
  using dec_enc [of a "[]"] dec_Nil by auto

lemma decode_all_step:
  assumes "dec s = Some (a, r)"
  shows "decode_all dec s = (a # fst (decode_all dec r), snd (decode_all dec r))"
  using assms dec_shrinks [OF assms] by (rule decode_all_Some)

lemma decode_all_Nil: "decode_all dec [] = ([], [])"
  by (rule decode_all_None) (rule dec_Nil)

text \<open>Values written back to back are read back, with whatever follows them decoded next.\<close>

lemma decode_all_append:
  "list_all ok as \<Longrightarrow>
   decode_all dec (concat (map enc as) @ rest) =
     (as @ fst (decode_all dec rest), snd (decode_all dec rest))"
proof (induction as)
  case (Cons a as)
  then have "ok a" by simp
  then have "dec (enc a @ (concat (map enc as) @ rest)) = Some (a, concat (map enc as) @ rest)"
    by (rule dec_enc)
  from decode_all_step [OF this] Cons show ?case by simp
qed simp

lemma decode_all_encoded:
  "list_all ok as \<Longrightarrow> decode_all dec (concat (map enc as)) = (as, [])"
  using decode_all_append [of as "[]"] by (simp add: decode_all_Nil)

text \<open>The encoding of a sequence determines it.\<close>

lemma encoding_injective:
  assumes "list_all ok as" "list_all ok bs" "concat (map enc as) = concat (map enc bs)"
  shows "as = bs"
proof -
  have "(as, []) = decode_all dec (concat (map enc as))"
    by (rule decode_all_encoded [OF assms(1), symmetric])
  also have "\<dots> = decode_all dec (concat (map enc bs))"
    by (simp only: assms(3))
  also have "\<dots> = (bs, [])"
    by (rule decode_all_encoded [OF assms(2)])
  finally show ?thesis by simp
qed

text \<open>What a loop leaves over cannot be decoded any further.\<close>

lemma decode_all_stuck: "dec (snd (decode_all dec s)) = None"
proof (induction s rule: measure_induct_rule [of length])
  case (less s)
  show ?case
  proof (cases "dec s")
    case None
    then show ?thesis by (simp add: decode_all_None)
  next
    case (Some ar)
    then obtain a r where ar: "dec s = Some (a, r)" by (cases ar) auto
    with less.IH [OF dec_shrinks [OF ar]] show ?thesis
      by (simp add: decode_all_step)
  qed
qed

end

section \<open>Decoding as the bytes arrive\<close>

text \<open>
  A format whose decoder never revises what it read when more bytes follow.  A client may then
  decode what it has, keep the rest and continue with the next bytes: the values are those of
  the whole stream.
\<close>

locale stream_codec = prefix_codec +
  assumes dec_extend: "dec s = Some (a, r) \<Longrightarrow> dec (s @ t) = Some (a, r @ t)"
begin

lemma decode_all_split:
  "decode_all dec (s @ t) =
     (fst (decode_all dec s) @ fst (decode_all dec (snd (decode_all dec s) @ t)),
      snd (decode_all dec (snd (decode_all dec s) @ t)))"
proof (induction s rule: measure_induct_rule [of length])
  case (less s)
  show ?case
  proof (cases "dec s")
    case None
    then show ?thesis by (simp add: decode_all_None)
  next
    case (Some ar)
    then obtain a r where ar: "dec s = Some (a, r)" by (cases ar) auto
    from decode_all_step [OF ar] decode_all_step [OF dec_extend [OF ar]]
      less.IH [OF dec_shrinks [OF ar]]
    show ?thesis by simp
  qed
qed

end

end
