(* ===== verification/Piv.thy ===== *)
theory Piv
  imports Rust_Str Codec
begin

text \<open>
  The PIV harness, \<^verbatim>\<open>fl/src/piv.rs\<close>: APDU construction, status words and GET RESPONSE
  chaining, the BER-TLV reader, reader selection and the whole
  SELECT / GET DATA / GENERAL AUTHENTICATE sequence.  The PC/SC card, the X.509 parser and the
  P-256 library are parameters (\<open>piv_env\<close>).
\<close>

section \<open>Errors\<close>

datatype piv_error =
    No_Reader
  | No_Reader_At nat
  | No_Reader_Matching string
  | Pcsc_Failed string
  | Short_Response
  | Unexpected_Sw string u16
  | Truncated_Tlv
  | Wrong_Tag u8 u8
  | No_Certificate
  | Bad_Certificate
  | Key_Not_Aligned
  | Bad_Key
  | No_Signature
  | Bad_Raw_Signature
  | Bad_Der_Signature
  | Signature_Mismatch
  | Piv_Panic panic

section \<open>BER-TLV\<close>

text \<open>
  \<open>read_tlv\<close>: every \<open>data.get(i)?\<close> and \<open>data.get(a..b)?\<close> is a bound check that
  ends in \<open>None\<close>.
\<close>

definition read_tlv_length :: "bytes \<Rightarrow> (nat \<times> nat) option" where
  "read_tlv_length data = do {
     l \<leftarrow> get_at data 1;
     if l = 0x81 then do { b \<leftarrow> get_at data 2; Some (unat b, 3) }
     else if l = 0x82 then do {
       hi \<leftarrow> get_at data 2;
       lo \<leftarrow> get_at data 3;
       Some (push_bit 8 (unat hi) OR unat lo, 4) }
     else Some (unat l, 2) }"

definition read_tlv :: "bytes \<Rightarrow> (u8 \<times> bytes \<times> bytes) option" where
  "read_tlv data = do {
     tag \<leftarrow> get_at data 0;
     (len, header) \<leftarrow> read_tlv_length data;
     value \<leftarrow> get_range data header (header + len);
     Some (tag, value, drop (header + len) data) }"

lemma read_tlv_length_header: "read_tlv_length data = Some (len, header) \<Longrightarrow> 2 \<le> header \<and> header \<le> 4"
  by (auto simp: read_tlv_length_def bind_eq_Some_conv split: if_splits)

lemma read_tlv_split:
  assumes "read_tlv data = Some (t, v, r)"
  obtains hdr where "data = hdr @ v @ r" "2 \<le> length hdr" "length hdr \<le> 4" "hdr ! 0 = t"
proof -
  from assms obtain len header where
      t: "get_at data 0 = Some t"
    and lh: "read_tlv_length data = Some (len, header)"
    and v: "get_range data header (header + len) = Some v"
    and r: "r = drop (header + len) data"
    by (auto simp: read_tlv_def bind_eq_Some_conv)
  have "2 \<le> header" "header \<le> 4" using read_tlv_length_header [OF lh] by auto
  with v t have "header + len \<le> length data" "v = take len (drop header data)" "data ! 0 = t"
    by (auto simp: get_range_Some get_at_Some)
  moreover from this r have "data = take header data @ v @ r"
    by (metis append_take_drop_id drop_drop add.commute)
  ultimately have "data = take header data @ v @ r" "take header data ! 0 = t"
      "length (take header data) = header"
    using \<open>2 \<le> header\<close> by simp_all
  with \<open>2 \<le> header\<close> \<open>header \<le> 4\<close> that show thesis by metis
qed

lemma read_tlv_shrinks: "read_tlv data = Some (t, v, r) \<Longrightarrow> length r < length data"
  by (elim read_tlv_split) force

text \<open>\<open>find_tlv\<close>: the loop of the source, total because every step drops a header.\<close>

function find_tlv :: "bytes \<Rightarrow> u8 \<Rightarrow> bytes option" where
  "find_tlv data tag =
     (if data = [] then None
      else case read_tlv data of
        None \<Rightarrow> None
      | Some (t, value, rest) \<Rightarrow> if t = tag then Some value else find_tlv rest tag)"
  by pat_completeness auto
termination
  by (relation "measure (\<lambda>(data, tag). length data)") (auto simp: read_tlv_shrinks)

declare find_tlv.simps [simp del]

definition unwrap_tlv :: "bytes \<Rightarrow> u8 \<Rightarrow> (piv_error, bytes) result" where
  "unwrap_tlv data tag =
     (case read_tlv data of
        None \<Rightarrow> Inl Truncated_Tlv
      | Some (t, value, _) \<Rightarrow> if t \<noteq> tag then Inl (Wrong_Tag tag t) else Inr value)"

text \<open>
  The format as a specification: the shortest length form that fits, as DER prescribes.  The
  source has no encoder; the reader is checked against this one.
\<close>

definition tlv_enc :: "u8 \<times> bytes \<Rightarrow> bytes" where
  "tlv_enc = (\<lambda>(t, v). let n = length v in
     t # (if n < 128 then [word_of_nat n]
          else if n < 256 then [0x81, word_of_nat n]
          else [0x82, word_of_nat (n div 256), word_of_nat n]) @ v)"

definition tlv_ok :: "u8 \<times> bytes \<Rightarrow> bool" where
  "tlv_ok = (\<lambda>(t, v). length v < 65536)"

lemma short_length_byte:
  assumes "n < 128"
  shows "unat (word_of_nat n :: u8) = n" "(word_of_nat n :: u8) \<noteq> 0x81" "(word_of_nat n :: u8) \<noteq> 0x82"
  using assms by (simp_all add: unat_of_nat_u8 word_unat_eq_iff del: of_nat_unat)

lemma read_tlv_short:
  assumes "length v < 128"
  shows "read_tlv (t # word_of_nat (length v) # v @ rest) = Some (t, v, rest)"
  using short_length_byte [OF assms]
  by (simp add: read_tlv_def read_tlv_length_def get_range_def eval_nat_numeral)

lemma read_tlv_81:
  assumes "length v < 256"
  shows "read_tlv (t # 0x81 # word_of_nat (length v) # v @ rest) = Some (t, v, rest)"
  using assms
  by (simp add: read_tlv_def read_tlv_length_def get_range_def unat_of_nat_u8 numeral_2_eq_2
      numeral_3_eq_3)

lemma read_tlv_82:
  assumes "length v < 65536"
  shows "read_tlv (t # 0x82 # word_of_nat (length v div 256) # word_of_nat (length v) # v @ rest)
     = Some (t, v, rest)"
proof -
  let ?hi = "word_of_nat (length v div 256) :: u8" and ?lo = "word_of_nat (length v) :: u8"
  have "push_bit 8 (unat ?hi) OR unat ?lo = length v"
    using nat_be16_digits [OF assms]
    by (simp only: push_bit_or_byte unat_u8_bound unat_of_nat_u8 mod_less_divisor zero_less_numeral)
  then have "read_tlv_length (t # 0x82 # ?hi # ?lo # v @ rest) = Some (length v, 4)"
    by (simp add: read_tlv_length_def get_at_def del: push_bit_nat_eq)
  then show ?thesis
    by (simp add: read_tlv_def get_range_def drop_Cons')
qed

lemma read_tlv_enc:
  assumes "tlv_ok tv"
  shows "read_tlv (tlv_enc tv @ rest) = Some (fst tv, snd tv, rest)"
  using assms read_tlv_short [of "snd tv" "fst tv" rest] read_tlv_81 [of "snd tv" "fst tv" rest]
    read_tlv_82 [of "snd tv" "fst tv" rest]
  by (cases tv) (auto simp: tlv_enc_def tlv_ok_def Let_def)

text \<open>The reader provides the self-delimiting format of \<open>prefix_codec\<close>.\<close>

definition read_one_tlv :: "bytes \<Rightarrow> ((u8 \<times> bytes) \<times> bytes) option" where
  "read_one_tlv s = (case read_tlv s of None \<Rightarrow> None | Some (t, v, r) \<Rightarrow> Some ((t, v), r))"

interpretation tlv: prefix_codec tlv_enc read_one_tlv tlv_ok
proof
  fix a rest
  assume "tlv_ok a"
  then show "read_one_tlv (tlv_enc a @ rest) = Some (a, rest)"
    by (cases a) (simp add: read_one_tlv_def read_tlv_enc)
next
  fix s a r
  assume "read_one_tlv s = Some (a, r)"
  then show "length r < length s"
    by (auto simp: read_one_tlv_def read_tlv_shrinks split: option.splits)
qed

text \<open>The search loop looks the tag up in the sequence the reader can peel.\<close>

lemma find_tlv_as_lookup: "find_tlv data tag = map_of (fst (decode_all read_one_tlv data)) tag"
proof (induction data tag rule: find_tlv.induct)
  case (1 data tag)
  show ?case
  proof (cases "read_tlv data")
    case None
    then show ?thesis
      by (simp add: find_tlv.simps decode_all_None read_one_tlv_def)
  next
    case (Some tvr)
    then obtain t v r where tvr: "read_tlv data = Some (t, v, r)" by (cases tvr) auto
    then have one: "read_one_tlv data = Some ((t, v), r)" by (simp add: read_one_tlv_def)
    have "data \<noteq> []" using tvr by (auto simp: read_tlv_def)
    with 1 tvr show ?thesis
      by (simp add: find_tlv.simps [of data] tlv.decode_all_step [OF one])
  qed
qed

lemma find_tlv_encoded:
  "list_all tlv_ok tvs \<Longrightarrow> find_tlv (concat (map tlv_enc tvs)) tag = map_of tvs tag"
  by (simp add: find_tlv_as_lookup tlv.decode_all_encoded)

lemma unwrap_tlv_enc: "tlv_ok tv \<Longrightarrow> unwrap_tlv (tlv_enc tv @ junk) (fst tv) = Inr (snd tv)"
  by (simp add: unwrap_tlv_def read_tlv_enc)

section \<open>Command APDUs\<close>

definition PIV_AID :: bytes where
  "PIV_AID = [0xa0, 0x00, 0x00, 0x03, 0x08, 0x00, 0x00, 0x10, 0x00]"

definition apdu :: "u8 \<Rightarrow> u8 \<Rightarrow> u8 \<Rightarrow> u8 \<Rightarrow> bytes \<Rightarrow> bytes" where
  "apdu cla ins p1 p2 data = [cla, ins, p1, p2, word_of_nat (length data)] @ data @ [0x00]"

definition get_data :: "bytes \<Rightarrow> bytes" where
  "get_data tag = apdu 0x00 0xcb 0x3f 0xff ([0x5c, word_of_nat (length tag)] @ tag)"

definition general_authenticate :: "bytes \<Rightarrow> bytes" where
  "general_authenticate challenge =
     (let template = [0x82, 0x00, 0x81, word_of_nat (length challenge)] @ challenge;
          data = [0x7c, word_of_nat (length template)] @ template
      in apdu 0x00 0x87 0x11 0x9a data)"

text \<open>The fixed challenge: byte \<open>i\<close> is \<open>7 i + 3\<close>, wrapping.\<close>

definition piv_challenge :: bytes where
  "piv_challenge = map (\<lambda>i. word_of_nat i * 7 + 3) [0..<32]"

lemma length_piv_challenge [simp]: "length piv_challenge = 32"
  by (simp add: piv_challenge_def)

text \<open>How a card reads a short case-4 command: the specification of \<open>apdu\<close>.\<close>

definition parse_short_apdu :: "bytes \<Rightarrow> (u8 \<times> u8 \<times> u8 \<times> u8 \<times> bytes \<times> u8) option" where
  "parse_short_apdu a = (case a of
     cla # ins # p1 # p2 # lc # body \<Rightarrow>
       if length body = unat lc + 1
       then Some (cla, ins, p1, p2, butlast body, last body)
       else None
   | _ \<Rightarrow> None)"

lemma parse_short_apdu_apdu:
  "parse_short_apdu (apdu cla ins p1 p2 data) =
     (if length data < 256 then Some (cla, ins, p1, p2, data, 0) else None)"
proof (cases "length data < 256")
  case False
  have "unat (word_of_nat (length data) :: u8) < 256" by (rule unat_u8_bound)
  with False show ?thesis by (simp add: parse_short_apdu_def apdu_def del: of_nat_unat)
qed (simp add: parse_short_apdu_def apdu_def unat_of_nat_u8)

section \<open>Talking to the card\<close>

definition split_sw :: "bytes \<Rightarrow> (piv_error, bytes \<times> u16) result" where
  "split_sw resp =
     (if length resp < 2 then Inl Short_Response
      else Inr (take (length resp - 2) resp,
                from_be16 (resp ! (length resp - 2)) (resp ! (length resp - 1))))"

text \<open>A card answers a command or fails, and moves to its next state.\<close>

type_synonym 'c card = "'c \<Rightarrow> bytes \<Rightarrow> bytes option \<times> 'c"

text \<open>The GET RESPONSE loop.  Nothing bounds it: a card may answer 61xx for ever.\<close>

partial_function (option) transmit_loop ::
    "'c card \<Rightarrow> bytes \<Rightarrow> bytes \<Rightarrow> 'c \<Rightarrow> ((piv_error, bytes \<times> u16) result \<times> 'c) option" where
  "transmit_loop tx command out c =
     (case tx c command of
        (None, c') \<Rightarrow> Some (Inl (Pcsc_Failed ''APDU transmit''), c')
      | (Some resp, c') \<Rightarrow>
          (case split_sw resp of
             Inl e \<Rightarrow> Some (Inl e, c')
           | Inr (data, sw) \<Rightarrow>
               if drop_bit 8 sw = 0x61
               then transmit_loop tx [0x00, 0xc0, 0x00, 0x00, ucast (sw AND 0xff)] (out @ data) c'
               else Some (Inr (out @ data, sw), c')))"

definition transmit :: "'c card \<Rightarrow> bytes \<Rightarrow> (piv_error, 'c, bytes \<times> u16) io" where
  "transmit tx send = transmit_loop tx send []"

definition expect_ok :: "string \<Rightarrow> 'c card \<Rightarrow> bytes \<Rightarrow> (piv_error, 'c, bytes) io" where
  "expect_ok label tx send =
     io_then (transmit tx send) (\<lambda>(data, sw).
       io_lift (if sw \<noteq> 0x9000 then Inl (Unexpected_Sw label sw) else Inr data))"

section \<open>The certificate and the signature\<close>

text \<open>The libraries the harness calls, and the outcome of opening the card.\<close>

record ('c, 'cert, 'key, 'sig) piv_env =
  card_connect :: bool
  card_begin :: bool
  card_transmit :: "'c card"
  certificate_from_der :: "bytes \<Rightarrow> 'cert option"
  spki_as_bytes :: "'cert \<Rightarrow> bytes option"
  key_from_sec1 :: "bytes \<Rightarrow> 'key option"
  sig_from_bytes :: "bytes \<Rightarrow> 'sig option"
  sig_from_der :: "bytes \<Rightarrow> 'sig option"
  verify_prehash :: "'key \<Rightarrow> bytes \<Rightarrow> 'sig \<Rightarrow> bool"

definition pubkey_from_cert_object ::
    "('c, 'cert, 'key, 'sig) piv_env \<Rightarrow> bytes \<Rightarrow> (piv_error, 'key) result" where
  "pubkey_from_cert_object env object =
     and_then (unwrap_tlv object 0x53) (\<lambda>inner.
     and_then (ok_or (find_tlv inner 0x70) No_Certificate) (\<lambda>der.
     and_then (ok_or (certificate_from_der env der) Bad_Certificate) (\<lambda>cert.
     and_then (ok_or (spki_as_bytes env cert) Key_Not_Aligned) (\<lambda>key.
     ok_or (key_from_sec1 env key) Bad_Key))))"

definition signature_from_auth ::
    "('c, 'cert, 'key, 'sig) piv_env \<Rightarrow> bytes \<Rightarrow> (piv_error, 'sig) result" where
  "signature_from_auth env resp =
     and_then (unwrap_tlv resp 0x7c) (\<lambda>inner.
     and_then (ok_or (find_tlv inner 0x82) No_Signature) (\<lambda>raw.
       if length raw = 64 then ok_or (sig_from_bytes env raw) Bad_Raw_Signature
       else ok_or (sig_from_der env raw) Bad_Der_Signature))"

section \<open>The sequence and the command\<close>

definition run_sequence :: "('c, 'cert, 'key, 'sig) piv_env \<Rightarrow> (piv_error, 'c, unit) io" where
  "run_sequence env =
     (let tx = card_transmit env in
     io_then (io_lift (if card_connect env then Inr () else Inl (Pcsc_Failed ''connect to card''))) (\<lambda>_.
     io_then (io_lift (if card_begin env then Inr () else Inl (Pcsc_Failed ''begin card transaction''))) (\<lambda>_.
     io_then (expect_ok ''SELECT PIV'' tx (apdu 0x00 0xa4 0x04 0x00 PIV_AID)) (\<lambda>_.
     io_then (expect_ok ''GET DATA CHUID'' tx (get_data [0x5f, 0xc1, 0x02])) (\<lambda>_.
     io_then (expect_ok ''GET DATA cert 9A'' tx (get_data [0x5f, 0xc1, 0x05])) (\<lambda>cert_object.
     io_then (io_lift (pubkey_from_cert_object env cert_object)) (\<lambda>pubkey.
     io_then (expect_ok ''GENERAL AUTHENTICATE'' tx (general_authenticate piv_challenge)) (\<lambda>auth.
     io_then (io_lift (signature_from_auth env auth)) (\<lambda>signature.
     io_lift (if verify_prehash env pubkey piv_challenge signature
              then Inr () else Inl Signature_Mismatch))))))))))"

record piv_args =
  piv_reader :: "string option"
  piv_index :: "nat option"

text \<open>Readers come as the bytes of their C strings.\<close>

definition select_reader :: "piv_args \<Rightarrow> bytes list \<Rightarrow> (piv_error, bytes) result" where
  "select_reader args readers =
     (if readers = [] then Inl No_Reader
      else case (piv_index args, piv_reader args) of
        (Some i, _) \<Rightarrow> ok_or (get_at readers i) (No_Reader_At i)
      | (None, Some want) \<Rightarrow>
          ok_or (find (\<lambda>r. str_contains (from_utf8_lossy r) want) readers) (No_Reader_Matching want)
      | (None, None) \<Rightarrow> ok_or (get_at readers 0) (Piv_Panic Index_Out_Of_Bounds))"

text \<open>
  \<open>run\<close>: \<open>established\<close> and \<open>listed\<close> are the outcomes of the two PC/SC calls;
  \<open>open_env\<close> is the environment of the card in the chosen reader.
\<close>

definition piv_run ::
    "piv_args \<Rightarrow> bool \<Rightarrow> bytes list option \<Rightarrow> (bytes \<Rightarrow> ('c, 'cert, 'key, 'sig) piv_env) \<Rightarrow>
     (piv_error, 'c, unit) io" where
  "piv_run args established listed open_env =
     io_then (io_lift (if established then Inr () else Inl (Pcsc_Failed ''establish PCSC context''))) (\<lambda>_.
     io_then (io_lift (ok_or listed (Pcsc_Failed ''list_readers''))) (\<lambda>readers.
     io_then (io_lift (select_reader args readers)) (\<lambda>r. run_sequence (open_env r))))"

section \<open>Properties\<close>

subsection \<open>TLV\<close>

text \<open>\<open>find_tlv\<close> is a lookup: on any buffer it returns the value of the first element
  with the tag among those the reader can peel, and on the concatenation of well-formed elements
  (values below 64 KiB) it is exactly the first-match lookup in that sequence.\<close>

theorem find_tlv_lookup:
  "find_tlv data tag = map_of (fst (decode_all read_one_tlv data)) tag
   \<and> (list_all tlv_ok tvs \<longrightarrow> find_tlv (concat (map tlv_enc tvs)) tag = map_of tvs tag)"
  by (simp add: find_tlv_as_lookup tlv.decode_all_encoded)

theorem find_tlv_lookup_witness:
  "find_tlv (concat (map tlv_enc [(0x71, [0]), (0x70, [7, 8]), (0x70, [9])])) 0x70 = Some [7, 8]"
  using find_tlv_lookup [of "[]" "0x70" "[(0x71, [0]), (0x70, [7, 8]), (0x70, [9])]"]
  by (simp add: tlv_ok_def)

text \<open>The reader never reads outside its buffer: a successful \<open>read_tlv\<close> splits the
  buffer into a header of two to four bytes that starts with the tag, the value and the
  remainder, and it reads back every encoded element whatever follows it.\<close>

theorem read_tlv_exact:
  "(read_tlv data = Some (t, v, r) \<longrightarrow>
     (\<exists>hdr. data = hdr @ v @ r \<and> 2 \<le> length hdr \<and> length hdr \<le> 4 \<and> hdr ! 0 = t))
   \<and> (length w < 65536 \<longrightarrow> read_tlv (tlv_enc (u, w) @ rest) = Some (u, w, rest))"
proof (intro conjI impI)
  assume "read_tlv data = Some (t, v, r)"
  then show "\<exists>hdr. data = hdr @ v @ r \<and> 2 \<le> length hdr \<and> length hdr \<le> 4 \<and> hdr ! 0 = t"
    by (elim read_tlv_split) blast
next
  assume "length w < 65536"
  then show "read_tlv (tlv_enc (u, w) @ rest) = Some (u, w, rest)"
    using read_tlv_enc [of "(u, w)" rest] by (simp add: tlv_ok_def)
qed

theorem read_tlv_exact_witness:
  "(\<exists>hdr. [0x53, 1, 5, 6] = hdr @ [5] @ [6 :: u8] \<and> 2 \<le> length hdr \<and> length hdr \<le> 4 \<and> hdr ! 0 = 0x53)
   \<and> read_tlv (tlv_enc (0x70, [1, 2]) @ [3]) = Some (0x70, [1, 2], [3])"
proof -
  have "read_tlv [0x53, 1, 5, 6] = Some (0x53, [5], [6])" by code_simp
  with read_tlv_exact [of "[0x53, 1, 5, 6]" "0x53" "[5]" "[6]" "[1, 2]" "0x70" "[3]"]
  show ?thesis by simp
qed

text \<open>\<open>unwrap_tlv\<close> does not check that the object spans the whole buffer, as its
  comment says it does: bytes after the object are ignored.\<close>

theorem unwrap_tlv_ignores_trailing:
  "length v < 65536 \<Longrightarrow> unwrap_tlv (tlv_enc (t, v) @ junk) t = Inr v"
  using unwrap_tlv_enc [of "(t, v)" junk] by (simp add: tlv_ok_def)

theorem unwrap_tlv_ignores_trailing_witness:
  "unwrap_tlv (tlv_enc (0x53, [1, 2]) @ [0xde, 0xad]) 0x53 = Inr [1, 2]"
  by (rule unwrap_tlv_ignores_trailing) simp

subsection \<open>Commands\<close>

text \<open>The GENERAL AUTHENTICATE command is well formed for every challenge of at most 119
  bytes: a card that parses the short APDU finds one 7C template that holds an empty 82
  placeholder and the challenge itself under 81.\<close>

theorem general_authenticate_wellformed:
  assumes "length challenge \<le> 119"
  shows "\<exists>data. parse_short_apdu (general_authenticate challenge) = Some (0x00, 0x87, 0x11, 0x9a, data, 0)
    \<and> (\<exists>inner. unwrap_tlv data 0x7c = Inr inner
        \<and> find_tlv inner 0x82 = Some [] \<and> find_tlv inner 0x81 = Some challenge)"
proof -
  let ?tvs = "[(0x82, []), (0x81, challenge)] :: (u8 \<times> bytes) list"
  let ?t = "concat (map tlv_enc ?tvs)"
  have t: "?t = [0x82, 0x00, 0x81, word_of_nat (length challenge)] @ challenge"
    using assms by (simp add: tlv_enc_def)
  have "length ?t < 128" using assms unfolding t by simp
  then have data: "[0x7c, word_of_nat (length ?t)] @ ?t = tlv_enc (0x7c, ?t)"
    by (simp add: tlv_enc_def)
  have ga: "general_authenticate challenge = apdu 0x00 0x87 0x11 0x9a (tlv_enc (0x7c, ?t))"
    by (simp only: general_authenticate_def Let_def t [symmetric] data)
  have "length (tlv_enc (0x7c, ?t)) < 256"
    unfolding data [symmetric] using \<open>length ?t < 128\<close> by simp
  then have "parse_short_apdu (general_authenticate challenge)
      = Some (0x00, 0x87, 0x11, 0x9a, tlv_enc (0x7c, ?t), 0)"
    unfolding ga by (simp only: parse_short_apdu_apdu if_True)
  moreover have "unwrap_tlv (tlv_enc (0x7c, ?t)) 0x7c = Inr ?t"
    using unwrap_tlv_enc [of "(0x7c, ?t)" "[]"] \<open>length ?t < 128\<close> by (simp add: tlv_ok_def)
  moreover have "find_tlv ?t tag = map_of ?tvs tag" for tag
    by (rule find_tlv_encoded) (use assms in \<open>simp add: tlv_ok_def\<close>)
  ultimately show ?thesis by simp
qed

theorem general_authenticate_wellformed_witness:
  "\<exists>data. parse_short_apdu (general_authenticate piv_challenge) = Some (0x00, 0x87, 0x11, 0x9a, data, 0)
    \<and> (\<exists>inner. unwrap_tlv data 0x7c = Inr inner
        \<and> find_tlv inner 0x82 = Some [] \<and> find_tlv inner 0x81 = Some piv_challenge)"
  by (rule general_authenticate_wellformed) simp

subsection \<open>Response chaining\<close>

text \<open>
  A scripted card: it plays a list of responses and keeps the commands it was sent.  When the
  script is over the transmission fails.
\<close>

definition script_card :: "(bytes list \<times> bytes list) card" where
  "script_card = (\<lambda>(rs, sent) cmd. case rs of
     [] \<Rightarrow> (None, ([], sent @ [cmd])) | r # rs' \<Rightarrow> (Some r, (rs', sent @ [cmd])))"

definition more_response :: "bytes \<times> u8 \<Rightarrow> bytes" where
  "more_response = (\<lambda>(d, le). d @ [0x61, le])"

definition get_response :: "u8 \<Rightarrow> bytes" where
  "get_response le = [0x00, 0xc0, 0x00, 0x00, le]"

lemma split_sw_append: "split_sw (d @ [hi, lo]) = Inr (d, from_be16 hi lo)"
  by (simp add: split_sw_def nth_append)

lemma drop_bit_from_be16: "drop_bit 8 (from_be16 hi lo) = (ucast hi :: u16)"
proof (rule word_unat_eq_iff [THEN iffD2])
  have "unat (drop_bit 8 (from_be16 hi lo)) = (unat hi * 256 + unat lo) div 256"
    by (simp add: unat_div_distrib unat_from_be16 drop_bit_eq_div)
  also have "\<dots> = unat hi" using unat_u8_bound [of lo] by simp
  finally show "unat (drop_bit 8 (from_be16 hi lo)) = unat (ucast hi :: u16)"
    by (simp add: unat_ucast_u8_u16)
qed

lemma and_from_be16: "ucast (from_be16 hi lo AND 0xff) = lo"
proof (rule word_unat_eq_iff [THEN iffD2])
  have "unat (from_be16 hi lo AND 0xff) = take_bit 8 (unat hi * 256 + unat lo)"
    by (simp add: unsigned_and_eq unat_from_be16 take_bit_eq_mask mask_eq_exp_minus_1)
  also have "\<dots> = unat lo" using unat_u8_bound [of lo] by (simp add: take_bit_eq_mod)
  finally show "unat (ucast (from_be16 hi lo AND 0xff) :: u8) = unat lo"
    using unat_u8_bound [of lo] by (simp add: unsigned_ucast_eq take_bit_nat_eq_self_iff)
qed

lemma ucast_is_61: "(ucast (hi :: u8) :: u16) = 0x61 \<longleftrightarrow> hi = 0x61"
  by (simp add: word_unat_eq_iff unat_ucast_u8_u16)

lemma transmit_loop_more:
  "tx c cmd = (Some (more_response m), c') \<Longrightarrow>
   transmit_loop tx cmd out c = transmit_loop tx (get_response (snd m)) (out @ fst m) c'"
  by (cases m, subst transmit_loop.simps)
    (simp add: more_response_def get_response_def split_sw_append drop_bit_from_be16 ucast_is_61
      and_from_be16)

lemma transmit_loop_last:
  "tx c cmd = (Some (d @ [hi, lo]), c') \<Longrightarrow> hi \<noteq> 0x61 \<Longrightarrow>
   transmit_loop tx cmd out c = Some (Inr (out @ d, from_be16 hi lo), c')"
  by (subst transmit_loop.simps)
    (simp add: split_sw_append drop_bit_from_be16 ucast_is_61)

lemma transmit_loop_script:
  "hi \<noteq> 0x61 \<Longrightarrow>
   transmit_loop script_card cmd out (map more_response ms @ (d @ [hi, lo]) # rest, sent) =
     Some (Inr (out @ concat (map fst ms) @ d, from_be16 hi lo),
           (rest, sent @ cmd # map (get_response \<circ> snd) ms))"
proof (induction ms arbitrary: cmd out sent)
  case Nil
  have "script_card ((d @ [hi, lo]) # rest, sent) cmd = (Some (d @ [hi, lo]), (rest, sent @ [cmd]))"
    by (simp add: script_card_def)
  from transmit_loop_last [where tx = script_card and cmd = cmd and d = d and hi = hi and lo = lo, OF this Nil] show ?case by simp
next
  case (Cons m ms)
  have "script_card (map more_response (m # ms) @ (d @ [hi, lo]) # rest, sent) cmd =
     (Some (more_response m), (map more_response ms @ (d @ [hi, lo]) # rest, sent @ [cmd]))"
    by (simp add: script_card_def)
  from transmit_loop_more [where tx = script_card and cmd = cmd and m = m, OF this] Cons.IH [OF Cons.prems] show ?case by simp
qed

text \<open>C24. GET RESPONSE chaining reassembles the answer: against a card that delivers its data in
  any number of pieces, each announced by a 61xx status, \<open>transmit\<close> returns the pieces
  concatenated with the final status word, asks for each piece with the length the card announced
  and leaves the rest of the exchange untouched.\<close>

theorem transmit_reassembles:
  assumes "hi \<noteq> 0x61"
  shows "transmit script_card cmd (map more_response ms @ (d @ [hi, lo]) # rest, sent) =
     Some (Inr (concat (map fst ms) @ d, from_be16 hi lo),
           (rest, sent @ cmd # map (get_response \<circ> snd) ms))"
  by (simp add: transmit_def transmit_loop_script [OF assms])

theorem transmit_reassembles_witness:
  "transmit script_card [0] (map more_response [([1, 2], 5), ([3], 1)] @ ([4] @ [0x90, 0]) # [], []) =
     Some (Inr ([1, 2, 3, 4], from_be16 0x90 0),
           ([], [[0], [0x00, 0xc0, 0x00, 0x00, 5], [0x00, 0xc0, 0x00, 0x00, 1]]))"
  by (subst transmit_reassembles) (simp_all add: get_response_def)

text \<open>C38. Nothing bounds the chaining loop: against a card that keeps answering 61xx
  \<open>transmit\<close> never returns.\<close>

theorem transmit_diverges:
  assumes step: "\<And>c cmd. bad c \<Longrightarrow> \<exists>m c'. tx c cmd = (Some (more_response m), c') \<and> bad c'"
    and start: "bad c"
  shows "transmit tx cmd c = None"
proof (rule ccontr)
  assume "transmit tx cmd c \<noteq> None"
  then obtain r where "transmit_loop tx cmd [] c = Some r" by (auto simp: transmit_def)
  then have "\<not> bad c"
  proof (rule transmit_loop.raw_induct [where P = "\<lambda>tx' _ _ c _. tx' = tx \<longrightarrow> \<not> bad c", rule_format, rotated])
    show "tx = tx" ..
  next
    fix f tx' cmd out c r
    assume IH: "\<And>tx' cmd out c r. f tx' (cmd :: bytes) (out :: bytes) c = Some r \<Longrightarrow> tx' = tx \<Longrightarrow> \<not> bad c"
      and eq: "(case tx' c cmd of
        (None, c') \<Rightarrow> Some (Inl (Pcsc_Failed ''APDU transmit''), c')
      | (Some resp, c') \<Rightarrow>
          (case split_sw resp of
             Inl e \<Rightarrow> Some (Inl e, c')
           | Inr (data, sw) \<Rightarrow>
               if drop_bit 8 sw = 0x61
               then f tx' [0x00, 0xc0, 0x00, 0x00, ucast (sw AND 0xff)] (out @ data) c'
               else Some (Inr (out @ data, sw), c'))) = Some r"
      and tx: "tx' = tx"
    show "\<not> bad c"
    proof
      assume "bad c"
      then obtain m c' where m: "tx c cmd = (Some (more_response m), c')" "bad c'"
        using step by blast
      with eq tx have "f tx (get_response (snd m)) (out @ fst m) c' = Some r"
        by (cases m) (simp add: more_response_def get_response_def split_sw_append
            drop_bit_from_be16 ucast_is_61 and_from_be16)
      from IH [OF this refl] m(2) show False by simp
    qed
  qed
  with start show False by simp
qed

theorem transmit_diverges_witness:
  "transmit (\<lambda>(c :: nat) cmd. (Some [7, 0x61, 0], c + 1)) [0] 0 = None"
proof (rule transmit_diverges [where bad = "\<lambda>_. True"])
  fix c :: nat and cmd :: bytes
  have "[7, 0x61, 0] = more_response ([7], 0)" by (simp add: more_response_def)
  then show "\<exists>m c'. (Some [7, 0x61, 0], c + 1) = (Some (more_response m), c') \<and> True" by blast
qed simp

subsection \<open>The whole chain\<close>

lemma io_lift_if_Inr:
  "io_lift (if b then Inr () else Inl e) w = Some (Inr x, w') \<longleftrightarrow> b \<and> w' = w"
  by auto

text \<open>The harness reports success only for a verified signature: if \<open>run_sequence\<close> ends
  without an error then the card answered GET DATA for slot 9A with an object that holds, under
  53/70, a certificate the parser accepted, and answered GENERAL AUTHENTICATE with a signature,
  under 7C/82, that the library verified over the fixed challenge with that certificate's key.\<close>

theorem run_sequence_sound:
  assumes "run_sequence env c = Some (Inr (), c')"
  shows "\<exists>c1 c2 object key auth sig.
    expect_ok ''GET DATA cert 9A'' (card_transmit env) (get_data [0x5f, 0xc1, 0x05]) c1
      = Some (Inr object, c2)
    \<and> pubkey_from_cert_object env object = Inr key
    \<and> expect_ok ''GENERAL AUTHENTICATE'' (card_transmit env) (general_authenticate piv_challenge) c2
      = Some (Inr auth, c')
    \<and> signature_from_auth env auth = Inr sig
    \<and> verify_prehash env key piv_challenge sig"
  using assms
  by (auto simp: run_sequence_def Let_def io_then_Inr io_lift_def split: if_splits; blast)

text \<open>What a conforming card says and hears for one command: the answer in pieces, status 9000.\<close>

type_synonym answer = "(bytes \<times> u8) list \<times> bytes"

definition answer_script :: "answer \<Rightarrow> bytes list" where
  "answer_script = (\<lambda>(ms, d). map more_response ms @ [d @ [0x90, 0x00]])"

definition answer_data :: "answer \<Rightarrow> bytes" where
  "answer_data = (\<lambda>(ms, d). concat (map fst ms) @ d)"

definition command_traffic :: "bytes \<Rightarrow> answer \<Rightarrow> bytes list" where
  "command_traffic cmd = (\<lambda>(ms, d). cmd # map (get_response \<circ> snd) ms)"

lemma sw_9000: "from_be16 0x90 0x00 = 0x9000"
  by (simp add: from_be16_def)

lemma expect_ok_script:
  "expect_ok label script_card cmd (answer_script a @ rest, sent) =
     Some (Inr (answer_data a), (rest, sent @ command_traffic cmd a))"
proof (cases a)
  case (Pair ms d)
  then show ?thesis
    using transmit_loop_script [of "0x90" cmd "[]" ms d "0x00" rest sent]
    by (simp add: expect_ok_def transmit_def answer_script_def answer_data_def
        command_traffic_def io_then_def sw_9000)
qed

lemma pubkey_from_cert_object_enc:
  assumes "tlv_ok (0x53, concat (map tlv_enc tvs))" "list_all tlv_ok tvs" "map_of tvs 0x70 = Some der"
  shows "pubkey_from_cert_object env (tlv_enc (0x53, concat (map tlv_enc tvs)) @ junk) =
     and_then (ok_or (certificate_from_der env der) Bad_Certificate) (\<lambda>cert.
     and_then (ok_or (spki_as_bytes env cert) Key_Not_Aligned) (\<lambda>key.
       ok_or (key_from_sec1 env key) Bad_Key))"
  using unwrap_tlv_enc [OF assms(1), of junk] assms(3)
  by (simp add: pubkey_from_cert_object_def find_tlv_encoded [OF assms(2)])

text \<open>C23. Against a conforming card, whatever pieces it cuts its answers into, the harness sends
  exactly SELECT, GET DATA for the CHUID, GET DATA for slot 9A and GENERAL AUTHENTICATE, in that
  order and with nothing but GET RESPONSE between them, and its verdict is the verdict of the
  signature check on the extracted key and signature.\<close>

theorem run_sequence_conformant:
  assumes "card_connect env" "card_begin env" "card_transmit env = script_card"
    and "pubkey_from_cert_object env (answer_data cert) = Inr key"
    and "signature_from_auth env (answer_data auth) = Inr sig"
  shows "run_sequence env
      (answer_script sel @ answer_script chuid @ answer_script cert @ answer_script auth, []) =
    Some (if verify_prehash env key piv_challenge sig then Inr () else Inl Signature_Mismatch,
      ([], command_traffic (apdu 0x00 0xa4 0x04 0x00 PIV_AID) sel
         @ command_traffic (get_data [0x5f, 0xc1, 0x02]) chuid
         @ command_traffic (get_data [0x5f, 0xc1, 0x05]) cert
         @ command_traffic (general_authenticate piv_challenge) auth))"
  using assms expect_ok_script [where a = auth and rest = "[]"]
  by (simp add: run_sequence_def Let_def io_then_def expect_ok_script)

definition demo_env :: "(bytes list \<times> bytes list, bytes, bytes, bytes) piv_env" where
  "demo_env = \<lparr>card_connect = True, card_begin = True, card_transmit = script_card,
     certificate_from_der = Some, spki_as_bytes = Some, key_from_sec1 = Some,
     sig_from_bytes = (\<lambda>_. None), sig_from_der = Some,
     verify_prehash = (\<lambda>k h s. k = [1, 2] \<and> s = [9, 9])\<rparr>"

definition demo_cert :: answer where
  "demo_cert = ([([0x53, 4], 4)], [0x70, 2, 1, 2])"

definition demo_auth :: answer where
  "demo_auth = ([], [0x7c, 4, 0x82, 2, 9, 9])"

definition demo_script :: "bytes list" where
  "demo_script = answer_script ([], []) @ answer_script ([], [0x30]) @ answer_script demo_cert
     @ answer_script demo_auth"

lemma demo_pubkey: "pubkey_from_cert_object demo_env (answer_data demo_cert) = Inr [1, 2]"
  by (simp add: pubkey_from_cert_object_def demo_env_def demo_cert_def answer_data_def
      unwrap_tlv_def read_tlv_def read_tlv_length_def get_range_def find_tlv.simps get_at_def)

lemma demo_sig: "signature_from_auth demo_env (answer_data demo_auth) = Inr [9, 9]"
  by (simp add: signature_from_auth_def demo_env_def demo_auth_def answer_data_def
      unwrap_tlv_def read_tlv_def read_tlv_length_def get_range_def find_tlv.simps get_at_def)

theorem run_sequence_conformant_witness:
  "\<exists>sent. run_sequence demo_env (demo_script, []) = Some (Inr (), ([], sent))"
  unfolding demo_script_def
  by (subst run_sequence_conformant [OF _ _ _ demo_pubkey demo_sig]) (simp_all add: demo_env_def)

lemma demo_run: "\<exists>sent. run_sequence demo_env (demo_script, []) = Some (Inr (), ([], sent))"
proof -
  have "card_transmit demo_env = script_card" "card_connect demo_env" "card_begin demo_env"
    by (simp_all add: demo_env_def)
  then show ?thesis
    unfolding demo_script_def
    using expect_ok_script [where a = demo_auth and rest = "[]"]
    by (simp add: run_sequence_def Let_def io_then_def expect_ok_script demo_pubkey demo_sig)
      (simp add: demo_env_def)
qed

theorem run_sequence_sound_witness:
  "\<exists>c1 c2 object key auth sig.
    expect_ok ''GET DATA cert 9A'' script_card (get_data [0x5f, 0xc1, 0x05]) c1 = Some (Inr object, c2)
    \<and> pubkey_from_cert_object demo_env object = Inr key
    \<and> signature_from_auth demo_env auth = Inr sig
    \<and> verify_prehash demo_env key piv_challenge sig"
proof -
  obtain sent where run: "run_sequence demo_env (demo_script, []) = Some (Inr (), ([], sent))"
    using demo_run by blast
  have "card_transmit demo_env = script_card" by (simp add: demo_env_def)
  with run_sequence_sound [OF run] show ?thesis by metis
qed

text \<open>Reader selection: an index wins over a name, a name picks the first reader whose lossily
  decoded name contains it, and without either the first reader is used; the chosen reader is
  always one of the list and the code's \<open>readers[0]\<close> cannot panic.\<close>

theorem select_reader_spec:
  "select_reader args readers =
     (if readers = [] then Inl No_Reader
      else case piv_index args of
        Some i \<Rightarrow> if i < length readers then Inr (readers ! i) else Inl (No_Reader_At i)
      | None \<Rightarrow> (case piv_reader args of
          None \<Rightarrow> Inr (hd readers)
        | Some want \<Rightarrow>
            (case filter (\<lambda>r. sublist want (from_utf8_lossy r)) readers of
               [] \<Rightarrow> Inl (No_Reader_Matching want)
             | r # _ \<Rightarrow> Inr r)))"
proof -
  have find: "find P xs = (case filter P xs of [] \<Rightarrow> None | x # _ \<Rightarrow> Some x)" for P and xs :: "bytes list"
    by (induction xs) auto
  show ?thesis
    by (auto simp: select_reader_def str_contains_iff find get_at_def hd_conv_nth
        split: option.splits list.splits)
qed

end
