(* ===== verification/Fido.thy ===== *)
theory Fido
  imports Rust_Str
begin

text \<open>
  The FIDO harness, \<^verbatim>\<open>fl/src/fido.rs\<close>: CTAPHID fragmentation and reassembly, the
  U2F command layer with its user-presence poll, the response parsers and the
  register-then-authenticate sequence.  The HID device, the clock, SHA-256 and the P-256
  library are parameters.  \<open>ovf\<close> says whether the build checks for overflow.
\<close>

section \<open>Constants and errors\<close>

definition PASSPORT_VID :: u16 where "PASSPORT_VID = 0x1307"
definition FIDO_USAGE_PAGE :: u16 where "FIDO_USAGE_PAGE = 0xf1d0"
definition REPORT_SIZE :: nat where "REPORT_SIZE = 64"
definition BROADCAST_CID :: u32 where "BROADCAST_CID = 0xffffffff"
definition CTAPHID_INIT :: u8 where "CTAPHID_INIT = 0x06"
definition CTAPHID_MSG :: u8 where "CTAPHID_MSG = 0x03"
definition CTAPHID_KEEPALIVE :: u8 where "CTAPHID_KEEPALIVE = 0x3b"
definition CTAPHID_ERROR :: u8 where "CTAPHID_ERROR = 0x3f"
definition INIT_HEADER :: nat where "INIT_HEADER = 7"
definition CONT_HEADER :: nat where "CONT_HEADER = 5"

lemmas ctaphid_consts = REPORT_SIZE_def INIT_HEADER_def CONT_HEADER_def
lemmas ctaphid_cmds = CTAPHID_INIT_def CTAPHID_MSG_def CTAPHID_KEEPALIVE_def CTAPHID_ERROR_def

datatype fido_error =
    Hosted_Not_Wired
  | Hid_Failed string
  | No_Device
  | Write_Failed
  | Read_Failed
  | Read_Timeout
  | Report_Too_Short
  | Sequence_Mismatch
  | Ctaphid_Error bytes
  | Unexpected_Cmd u8
  | U2f_Too_Short
  | U2f_Status u16
  | Presence_Timeout
  | Malformed_Registration
  | Registration_Key
  | Key_Handle_Truncated
  | Malformed_Authentication
  | Authentication_Signature
  | Short_Init
  | Not_Verified
  | Fido_Panic panic

definition fido_panics :: "(panic, 'a) result \<Rightarrow> (fido_error, 'a) result" where
  "fido_panics r = (case r of Inl p \<Rightarrow> Inl (Fido_Panic p) | Inr a \<Rightarrow> Inr a)"

lemma fido_panics_simps [simp]:
  "fido_panics (Inl p) = Inl (Fido_Panic p)"
  "fido_panics (Inr a) = Inr a"
  by (simp_all add: fido_panics_def)

section \<open>Fragmentation\<close>

definition init_report :: "u32 \<Rightarrow> u8 \<Rightarrow> bytes \<Rightarrow> bytes" where
  "init_report cid cmd payload =
     (let report = replicate REPORT_SIZE 0;
          report = blit report 0 (be32 cid);
          report = report[4 := cmd OR 0x80];
          report = blit report 5 (be16 (word_of_nat (length payload)));
          first = min (length payload) (REPORT_SIZE - INIT_HEADER)
      in blit report INIT_HEADER (take first payload))"

definition cont_report :: "u32 \<Rightarrow> u8 \<Rightarrow> bytes \<Rightarrow> bytes" where
  "cont_report cid seq chunk =
     (let report = replicate REPORT_SIZE 0;
          report = blit report 0 (be32 cid);
          report = report[4 := seq]
      in blit report CONT_HEADER chunk)"

text \<open>The \<open>while offset < payload.len()\<close> loop, with its \<open>seq += 1\<close>.\<close>

function fragment_rest :: "bool \<Rightarrow> u32 \<Rightarrow> bytes \<Rightarrow> nat \<Rightarrow> u8 \<Rightarrow> (panic, bytes list) result" where
  "fragment_rest ovf cid payload offset seq =
     (if offset < length payload then
        let chunk = min (length payload - offset) (REPORT_SIZE - CONT_HEADER);
            report = cont_report cid seq (take chunk (drop offset payload))
        in and_then (add_u8 ovf seq 1) (\<lambda>seq'.
           and_then (fragment_rest ovf cid payload (offset + chunk) seq') (\<lambda>reports.
             Inr (report # reports)))
      else Inr [])"
  by pat_completeness auto
termination
  by (relation "measure (\<lambda>(ovf, cid, payload, offset, seq). length payload - offset)")
    (auto simp: ctaphid_consts)

declare fragment_rest.simps [simp del]

definition fragment :: "bool \<Rightarrow> u32 \<Rightarrow> u8 \<Rightarrow> bytes \<Rightarrow> (panic, bytes list) result" where
  "fragment ovf cid cmd payload =
     (let first = min (length payload) (REPORT_SIZE - INIT_HEADER)
      in and_then (fragment_rest ovf cid payload first 0) (\<lambda>reports.
           Inr (init_report cid cmd payload # reports)))"

section \<open>Reassembly\<close>

text \<open>The local variables of the read loop of \<open>exchange\<close>.\<close>

record rx =
  acc :: bytes
  remaining :: nat
  expected_seq :: u8
  response_cmd :: u8

definition rx_init :: rx where
  "rx_init = \<lparr>acc = [], remaining = 0, expected_seq = 0, response_cmd = 0\<rparr>"

datatype rx_verdict = Rx_More rx | Rx_Fail fido_error | Rx_Done u8 bytes

text \<open>An initialization report.  \<open>r[5]\<close> and \<open>r[6]\<close> are read without a bound check.\<close>

definition rx_initialize :: "rx \<Rightarrow> bytes \<Rightarrow> (fido_error, rx) result" where
  "rx_initialize s r =
     (if length r < 7 then Inl (Fido_Panic Index_Out_Of_Bounds)
      else let total = unat (from_be16 (r ! 5) (r ! 6));
               n = min (length r - INIT_HEADER) total
           in Inr (s\<lparr>response_cmd := r ! 4 AND 0x7f,
                     acc := take n (drop INIT_HEADER r),
                     remaining := total - n,
                     expected_seq := 0\<rparr>))"

definition rx_continue :: "bool \<Rightarrow> rx \<Rightarrow> bytes \<Rightarrow> (fido_error, rx) result" where
  "rx_continue ovf s r =
     (if r ! 4 \<noteq> expected_seq s then Inl Sequence_Mismatch
      else let n = min (length r - CONT_HEADER) (remaining s)
           in and_then (fido_panics (add_u8 ovf (expected_seq s) 1)) (\<lambda>seq'.
                Inr (s\<lparr>acc := acc s @ take n (drop CONT_HEADER r),
                       remaining := remaining s - n,
                       expected_seq := seq'\<rparr>)))"

text \<open>The \<open>if remaining == 0\<close> block: is the message complete, and what is it?\<close>

definition rx_finish :: "rx \<Rightarrow> rx_verdict" where
  "rx_finish s =
     (if remaining s = 0 then
        (if response_cmd s = CTAPHID_KEEPALIVE then Rx_More s
         else if response_cmd s = CTAPHID_ERROR then Rx_Fail (Ctaphid_Error (acc s))
         else Rx_Done (response_cmd s) (acc s))
      else Rx_More s)"

text \<open>One turn of the loop on the bytes \<open>read[..n]\<close> of a report.\<close>

definition rx_step :: "bool \<Rightarrow> rx \<Rightarrow> bytes \<Rightarrow> rx_verdict" where
  "rx_step ovf s r =
     (if r = [] then Rx_Fail Read_Timeout
      else if length r < CONT_HEADER then Rx_Fail Report_Too_Short
      else case (if r ! 4 AND 0x80 \<noteq> 0 then rx_initialize s r else rx_continue ovf s r) of
        Inl e \<Rightarrow> Rx_Fail e
      | Inr s' \<Rightarrow> rx_finish s')"

text \<open>The turns on a given sequence of reports: the verdict and the reports not read.\<close>

fun rx_run :: "bool \<Rightarrow> rx \<Rightarrow> bytes list \<Rightarrow> rx_verdict \<times> bytes list" where
  "rx_run ovf s [] = (Rx_More s, [])"
| "rx_run ovf s (r # rs) =
     (case rx_step ovf s r of Rx_More s' \<Rightarrow> rx_run ovf s' rs | v \<Rightarrow> (v, rs))"

section \<open>The device\<close>

text \<open>
  \<open>hid_write\<close> says whether the write succeeded; \<open>hid_read\<close> is \<open>None\<close> on an error
  and the bytes read otherwise, none of them on a timeout.
\<close>

record 'w hid =
  hid_write :: "'w \<Rightarrow> bytes \<Rightarrow> bool \<times> 'w"
  hid_read :: "'w \<Rightarrow> bytes option \<times> 'w"

primrec write_reports :: "'w hid \<Rightarrow> bytes list \<Rightarrow> (fido_error, 'w, unit) io" where
  "write_reports dev [] w = Some (Inr (), w)"
| "write_reports dev (r # rs) w =
     (case hid_write dev w (0x00 # r) of
        (False, w') \<Rightarrow> Some (Inl Write_Failed, w')
      | (True, w') \<Rightarrow> write_reports dev rs w')"

text \<open>KEEPALIVE reports may come for ever, so the loop is partial.\<close>

partial_function (option) read_loop ::
    "bool \<Rightarrow> 'w hid \<Rightarrow> rx \<Rightarrow> 'w \<Rightarrow> ((fido_error, u8 \<times> bytes) result \<times> 'w) option" where
  "read_loop ovf dev s w =
     (case hid_read dev w of
        (None, w') \<Rightarrow> Some (Inl Read_Failed, w')
      | (Some r, w') \<Rightarrow>
          (case rx_step ovf s r of
             Rx_More s' \<Rightarrow> read_loop ovf dev s' w'
           | Rx_Fail e \<Rightarrow> Some (Inl e, w')
           | Rx_Done cmd data \<Rightarrow> Some (Inr (cmd, data), w')))"

definition exchange ::
    "bool \<Rightarrow> 'w hid \<Rightarrow> u32 \<Rightarrow> u8 \<Rightarrow> bytes \<Rightarrow> (fido_error, 'w, u8 \<times> bytes) io" where
  "exchange ovf dev cid cmd payload =
     io_then (io_lift (fido_panics (fragment ovf cid cmd payload))) (\<lambda>reports.
     io_then (write_reports dev reports) (\<lambda>_. read_loop ovf dev rx_init))"

section \<open>U2F commands\<close>

text \<open>The libraries and the clock; times in milliseconds.\<close>

record ('w, 'key, 'sig) fido_env =
  overflow_checks :: bool
  hid_dev :: "'w hid"
  clock_now :: "'w \<Rightarrow> nat \<times> 'w"
  clock_sleep :: "'w \<Rightarrow> nat \<Rightarrow> 'w"
  sha256 :: "bytes \<Rightarrow> bytes"
  u2f_key_from_sec1 :: "bytes \<Rightarrow> 'key option"
  u2f_sig_from_der :: "bytes \<Rightarrow> 'sig option"
  u2f_verify :: "'key \<Rightarrow> bytes \<Rightarrow> 'sig \<Rightarrow> bool"

definition env_exchange ::
    "('w, 'key, 'sig) fido_env \<Rightarrow> u32 \<Rightarrow> u8 \<Rightarrow> bytes \<Rightarrow> (fido_error, 'w, u8 \<times> bytes) io" where
  "env_exchange env = exchange (overflow_checks env) (hid_dev env)"

definition u2f_apdu :: "u8 \<Rightarrow> u8 \<Rightarrow> bytes \<Rightarrow> bytes" where
  "u2f_apdu ins p1 data =
     [0x00, ins, p1, 0x00, 0x00] @ be16 (word_of_nat (length data)) @ data @ [0x00, 0x00]"

definition u2f_split :: "u8 \<times> bytes \<Rightarrow> (fido_error, bytes \<times> u16) result" where
  "u2f_split = (\<lambda>(cmd, data).
     if cmd \<noteq> CTAPHID_MSG then Inl (Unexpected_Cmd cmd)
     else if length data < 2 then Inl U2f_Too_Short
     else Inr (take (length data - 2) data,
               from_be16 (data ! (length data - 2)) (data ! (length data - 1))))"

definition u2f_once ::
    "('w, 'key, 'sig) fido_env \<Rightarrow> u32 \<Rightarrow> bytes \<Rightarrow> (fido_error, 'w, bytes \<times> u16) io" where
  "u2f_once env cid a =
     io_then (env_exchange env cid CTAPHID_MSG a) (\<lambda>r. io_lift (u2f_split r))"

definition u2f :: "('w, 'key, 'sig) fido_env \<Rightarrow> u32 \<Rightarrow> bytes \<Rightarrow> (fido_error, 'w, bytes) io" where
  "u2f env cid a =
     io_then (u2f_once env cid a) (\<lambda>(data, sw).
       io_lift (if sw \<noteq> 0x9000 then Inl (U2f_Status sw) else Inr data))"

text \<open>The poll loop.  The clock is read only when the status is 6985, as the match guard does.\<close>

partial_function (option) presence_loop ::
    "('w, 'key, 'sig) fido_env \<Rightarrow> u32 \<Rightarrow> bytes \<Rightarrow> nat \<Rightarrow> 'w \<Rightarrow>
     ((fido_error, bytes) result \<times> 'w) option" where
  "presence_loop env cid a deadline w =
     (case u2f_once env cid a w of
        None \<Rightarrow> None
      | Some (Inl e, w') \<Rightarrow> Some (Inl e, w')
      | Some (Inr (data, sw), w') \<Rightarrow>
          if sw = 0x9000 then Some (Inr data, w')
          else if sw = 0x6985 then
            (case clock_now env w' of (t, w'') \<Rightarrow>
               if t < deadline then presence_loop env cid a deadline (clock_sleep env w'' 200)
               else Some (Inl Presence_Timeout, w''))
          else Some (Inl (U2f_Status sw), w'))"

definition u2f_await_presence ::
    "('w, 'key, 'sig) fido_env \<Rightarrow> u32 \<Rightarrow> bytes \<Rightarrow> (fido_error, 'w, bytes) io" where
  "u2f_await_presence env cid a w =
     (case clock_now env w of (t, w') \<Rightarrow> presence_loop env cid a (t + 60000) w')"

definition parse_registration ::
    "('w, 'key, 'sig) fido_env \<Rightarrow> bytes \<Rightarrow> (fido_error, 'key \<times> bytes) result" where
  "parse_registration env resp =
     (if get_at resp 0 \<noteq> Some 0x05 \<or> length resp < 67 then Inl Malformed_Registration
      else and_then (ok_or (u2f_key_from_sec1 env (take 65 (drop 1 resp))) Registration_Key) (\<lambda>pubkey.
           let kh_len = unat (resp ! 66) in
           and_then (ok_or (get_range resp 67 (67 + kh_len)) Key_Handle_Truncated) (\<lambda>key_handle.
             Inr (pubkey, key_handle))))"

definition parse_authentication ::
    "('w, 'key, 'sig) fido_env \<Rightarrow> bytes \<Rightarrow> (fido_error, u8 \<times> u32 \<times> 'sig) result" where
  "parse_authentication env resp =
     (if length resp < 6 then Inl Malformed_Authentication
      else and_then (ok_or (u2f_sig_from_der env (drop 5 resp)) Authentication_Signature) (\<lambda>signature.
           Inr (resp ! 0, from_be32 (resp ! 1) (resp ! 2) (resp ! 3) (resp ! 4), signature)))"

definition ctaphid_init :: "('w, 'key, 'sig) fido_env \<Rightarrow> (fido_error, 'w, u32) io" where
  "ctaphid_init env =
     io_then (env_exchange env BROADCAST_CID CTAPHID_INIT (replicate 8 0x42)) (\<lambda>(_, data).
     io_then (io_lift (ok_or (get_range data 8 12) Short_Init)) (\<lambda>cid.
       io_lift (Inr (from_be32 (cid ! 0) (cid ! 1) (cid ! 2) (cid ! 3)))))"

section \<open>The command\<close>

definition u2f_challenge :: bytes where
  "u2f_challenge = map (\<lambda>i. word_of_nat i * 13 + 1) [0..<32]"

definition register_data :: "bytes \<Rightarrow> bytes" where
  "register_data appid = u2f_challenge @ appid"

definition authenticate_data :: "bytes \<Rightarrow> bytes \<Rightarrow> bytes" where
  "authenticate_data appid key_handle =
     u2f_challenge @ appid @ [word_of_nat (length key_handle)] @ key_handle"

definition signed_data :: "bytes \<Rightarrow> u8 \<Rightarrow> u32 \<Rightarrow> bytes" where
  "signed_data appid presence counter = appid @ [presence] @ be32 counter @ u2f_challenge"

definition u2f_sequence :: "('w, 'key, 'sig) fido_env \<Rightarrow> (fido_error, 'w, unit) io" where
  "u2f_sequence env =
     (let appid = sha256 env (bytes_of_str ''https://foundation.xyz'') in
     io_then (ctaphid_init env) (\<lambda>cid.
     io_then (u2f env cid (u2f_apdu 0x03 0x00 [])) (\<lambda>version.
     io_then (u2f_await_presence env cid (u2f_apdu 0x01 0x00 (register_data appid))) (\<lambda>reg.
     io_then (io_lift (parse_registration env reg)) (\<lambda>(pubkey, key_handle).
     io_then (u2f_await_presence env cid (u2f_apdu 0x02 0x03 (authenticate_data appid key_handle))) (\<lambda>auth.
     io_then (io_lift (parse_authentication env auth)) (\<lambda>(presence, counter, signature).
       io_lift (if u2f_verify env pubkey (sha256 env (signed_data appid presence counter)) signature
                then Inr () else Inl Not_Verified))))))))"

record hid_info =
  vendor_id :: u16
  usage_page :: u16

text \<open>
  \<open>run\<close>: \<open>listed\<close> is the device list if the HID API opened, \<open>open_device\<close> the
  environment of a device if it could be opened.
\<close>

definition fido_run ::
    "bool \<Rightarrow> hid_info list option \<Rightarrow> (hid_info \<Rightarrow> ('w, 'key, 'sig) fido_env option) \<Rightarrow>
     (fido_error, 'w, unit) io" where
  "fido_run hosted listed open_device =
     (if hosted then io_lift (Inl Hosted_Not_Wired)
      else
        io_then (io_lift (ok_or listed (Hid_Failed ''open the HID API''))) (\<lambda>devices.
        io_then (io_lift (ok_or
            (find (\<lambda>d. vendor_id d = PASSPORT_VID \<and> usage_page d = FIDO_USAGE_PAGE) devices)
            No_Device)) (\<lambda>info.
        io_then (io_lift (ok_or (open_device info) (Hid_Failed ''open the FIDO HID device'')))
          u2f_sequence)))"

section \<open>The shape of reports\<close>

lemma blank_report_seq: "(be32 cid @ replicate 60 (0 :: u8))[4 := x] = be32 cid @ x # replicate 59 0"
  using replicate_Suc [of 59 "0 :: u8"] by (simp add: list_update_append)

lemma init_report_shape:
  "init_report cid cmd payload =
     be32 cid @ [cmd OR 0x80] @ be16 (word_of_nat (length payload))
       @ take 57 payload @ replicate (57 - length payload) 0"
  by (simp add: init_report_def Let_def ctaphid_consts blit_def blank_report_seq min_def drop_Cons')

lemma cont_report_shape:
  "length chunk \<le> 59 \<Longrightarrow>
   cont_report cid seq chunk = be32 cid @ [seq] @ chunk @ replicate (59 - length chunk) 0"
  by (simp add: cont_report_def Let_def ctaphid_consts blit_def blank_report_seq)

lemma length_init_report [simp]: "length (init_report cid cmd payload) = 64"
  by (simp add: init_report_shape)

lemma length_cont_report [simp]: "length chunk \<le> 59 \<Longrightarrow> length (cont_report cid seq chunk) = 64"
  by (simp add: cont_report_shape)

lemma high_bit_set: "(cmd OR 0x80) AND (0x80 :: u8) \<noteq> 0"
proof -
  have "bit (cmd OR (0x80 :: u8)) 7" by (simp add: bit_simps)
  then show ?thesis using and_exp_eq_0_iff_not_bit [of "cmd OR (0x80 :: u8)" 7] by simp
qed

lemma high_bit_clear_iff: "(b :: u8) AND 0x80 = 0 \<longleftrightarrow> unat b < 128"
proof -
  have "bit b 7 \<longleftrightarrow> odd (unat b div 128)"
    using bit_iff_odd [of "unat b" 7] by (simp add: bit_unsigned_iff)
  moreover have "unat b div 128 = 1" if "\<not> unat b < 128"
    using unat_u8_bound [of b] that by (intro div_nat_eqI) auto
  ultimately have "bit b 7 \<longleftrightarrow> \<not> unat b < 128"
    by (cases "unat b < 128") auto
  then show ?thesis using and_exp_eq_0_iff_not_bit [of b 7] by simp
qed

lemma command_recovered: "unat (cmd :: u8) < 128 \<Longrightarrow> (cmd OR 0x80) AND 0x7f = cmd"
proof -
  assume c: "unat cmd < 128"
  have "(cmd OR 0x80) AND 0x7f = take_bit 7 (cmd OR (0x80 :: u8))"
    by (simp add: take_bit_eq_mask mask_eq_exp_minus_1)
  also have "\<dots> = take_bit 7 cmd" by (simp add: bit_eq_iff bit_simps)
  also have "\<dots> = cmd"
    using c by (simp add: word_unat_eq_iff unsigned_take_bit_eq take_bit_nat_eq_self_iff)
  finally show ?thesis .
qed

section \<open>Reassembling what fragmentation produced\<close>

lemma rx_step_init_report:
  assumes "length payload < 65536" "unat cmd < 128"
  shows "rx_step ovf s (init_report cid cmd payload) =
    rx_finish (s\<lparr>response_cmd := cmd, acc := take 57 payload,
                 remaining := length payload - 57, expected_seq := 0\<rparr>)"
proof -
  let ?r = "init_report cid cmd payload" and ?n = "word_of_nat (length payload) :: u16"
  have r4: "?r ! 4 = cmd OR 0x80" and r56: "?r ! 5 = be16 ?n ! 0" "?r ! 6 = be16 ?n ! 1"
    by (simp_all add: init_report_shape nth_append)
  have total: "unat (from_be16 (?r ! 5) (?r ! 6)) = length payload"
    using assms(1) by (simp only: r56 from_be16_be16 unat_of_nat_u16 mod_less)
  have body: "take (min 57 (length payload)) (drop 7 ?r) = take 57 payload"
    by (simp add: init_report_shape min_def)
  have "?r \<noteq> []" using length_init_report [of cid cmd payload] by (metis list.size(3) zero_neq_numeral)
  then show ?thesis
    using high_bit_set [of cmd] command_recovered [OF assms(2)]
    by (simp add: rx_step_def rx_initialize_def r4 total body ctaphid_consts Let_def)
      (simp add: min_def)
qed

lemma rx_step_cont_report:
  assumes "unat seq < 128" "expected_seq s = seq" "min 59 (remaining s) = length chunk"
  shows "rx_step ovf s (cont_report cid seq chunk) =
    rx_finish (s\<lparr>acc := acc s @ chunk, remaining := remaining s - length chunk,
                 expected_seq := seq + 1\<rparr>)"
proof -
  let ?r = "cont_report cid seq chunk"
  have len: "length chunk \<le> 59" using assms(3) by simp
  have r4: "?r ! 4 = seq" by (simp add: cont_report_shape [OF len] nth_append)
  have body: "take (length chunk) (drop 5 ?r) = chunk"
    by (simp add: cont_report_shape [OF len])
  have "?r \<noteq> []"
    using length_cont_report [OF len, of cid seq] by (metis list.size(3) zero_neq_numeral)
  moreover have "seq AND 0x80 = 0" using assms(1) by (simp add: high_bit_clear_iff)
  ultimately show ?thesis
    using assms len
    by (simp add: rx_step_def rx_continue_def r4 body ctaphid_consts add_u8_def)
qed

text \<open>The verdict a message ends with, and what follows when it was only a KEEPALIVE.\<close>

definition rx_then :: "bool \<Rightarrow> rx_verdict \<Rightarrow> bytes list \<Rightarrow> rx_verdict \<times> bytes list" where
  "rx_then ovf v rs = (case v of Rx_More s \<Rightarrow> rx_run ovf s rs | _ \<Rightarrow> (v, rs))"

lemma rx_run_Cons: "rx_run ovf s (r # rs) = rx_then ovf (rx_step ovf s r) rs"
  by (simp add: rx_then_def split: rx_verdict.split)

lemma rx_then_incomplete: "remaining s \<noteq> 0 \<Longrightarrow> rx_then ovf (rx_finish s) rs = rx_run ovf s rs"
  by (simp add: rx_then_def rx_finish_def)

definition rx_complete :: "rx \<Rightarrow> u8 \<Rightarrow> bytes \<Rightarrow> bool" where
  "rx_complete s cmd payload \<longleftrightarrow> response_cmd s = cmd \<and> acc s = payload \<and> remaining s = 0"

lemma fragment_rest_done:
  "length payload \<le> offset \<Longrightarrow> fragment_rest ovf cid payload offset seq = Inr []"
  by (subst fragment_rest.simps) simp

lemma add_u8_small: "unat seq < 128 \<Longrightarrow> add_u8 ovf seq 1 = Inr (seq + 1)"
  by (simp add: add_u8_def)

lemma unat_suc_small: "unat (seq :: u8) < 128 \<Longrightarrow> unat (seq + 1) = Suc (unat seq)"
  by (simp add: unat_word_ariths)

lemma fragment_rest_step:
  assumes "offset < length payload" "unat seq < 128"
  shows "fragment_rest ovf cid payload offset seq =
    (let chunk = take 59 (drop offset payload)
     in and_then (fragment_rest ovf cid payload (offset + length chunk) (seq + 1)) (\<lambda>reports.
          Inr (cont_report cid seq chunk # reports)))"
proof -
  have "take (min (length payload - offset) 59) (drop offset payload) = take 59 (drop offset payload)"
    by (simp add: min_def)
  with assms show ?thesis
    by (subst fragment_rest.simps) (simp add: Let_def ctaphid_consts add_u8_small)
qed

lemma fragment_rest_ok:
  "length payload \<le> offset + 59 * (128 - unat seq) \<Longrightarrow>
   \<exists>rs. fragment_rest ovf cid payload offset seq = Inr rs"
proof (induction "length payload - offset" arbitrary: offset seq rule: less_induct)
  case less
  show ?case
  proof (cases "offset < length payload")
    case True
    with less.prems have seq: "unat seq < 128" by (cases "unat seq < 128") auto
    let ?o = "offset + length (take 59 (drop offset payload))"
    have "length payload - ?o < length payload - offset" using True by simp
    moreover have "length payload \<le> ?o + 59 * (128 - unat (seq + 1))"
      using less.prems True seq by (auto simp: unat_suc_small min_def)
    ultimately have "\<exists>rs. fragment_rest ovf cid payload ?o (seq + 1) = Inr rs"
      by (rule less.hyps)
    with True seq show ?thesis by (auto simp: fragment_rest_step Let_def)
  qed (simp add: fragment_rest_done)
qed

lemma rx_run_fragment_rest:
  assumes "fragment_rest ovf cid payload offset seq = Inr rs"
    and "offset < length payload" "length payload \<le> offset + 59 * (128 - unat seq)"
    and "expected_seq s = seq" "response_cmd s = cmd" "acc s = take offset payload"
    and "remaining s = length payload - offset"
  shows "\<exists>s'. rx_complete s' cmd payload \<and> rx_run ovf s (rs @ later) = rx_then ovf (rx_finish s') later"
  using assms
proof (induction "length payload - offset" arbitrary: offset seq rs s rule: less_induct)
  case less
  let ?chunk = "take 59 (drop offset payload)" and ?o = "offset + length (take 59 (drop offset payload))"
  let ?s = "s\<lparr>acc := acc s @ ?chunk, remaining := remaining s - length ?chunk, expected_seq := seq + 1\<rparr>"
  from less.prems(2,3) have seq: "unat seq < 128" by (cases "unat seq < 128") auto
  from less.prems(1) obtain rs' where
      rs': "fragment_rest ovf cid payload ?o (seq + 1) = Inr rs'"
    and rs: "rs = cont_report cid seq ?chunk # rs'"
    unfolding fragment_rest_step [OF less.prems(2) seq] Let_def
    by (cases "fragment_rest ovf cid payload ?o (seq + 1)") auto
  have "rx_step ovf s (cont_report cid seq ?chunk) = rx_finish ?s"
    by (rule rx_step_cont_report [OF seq less.prems(4)]) (simp add: less.prems(7) min.commute)
  then have run: "rx_run ovf s (rs @ later) = rx_then ovf (rx_finish ?s) (rs' @ later)"
    by (simp only: rs append_Cons rx_run_Cons)
  have acc: "acc ?s = take ?o payload"
    using less.prems(2,6) by (simp add: take_add min_def)
  show ?case
  proof (cases "?o < length payload")
    case True
    have "remaining ?s \<noteq> 0" using True less.prems(7) by simp
    then have "rx_run ovf s (rs @ later) = rx_run ovf ?s (rs' @ later)"
      unfolding run by (rule rx_then_incomplete)
    moreover have "\<exists>s'. rx_complete s' cmd payload
        \<and> rx_run ovf ?s (rs' @ later) = rx_then ovf (rx_finish s') later"
      using less.prems(2,3,5,7) True rs' acc seq
      by (intro less.hyps [of ?o "seq + 1" rs' ?s]) (auto simp: unat_suc_small min_def)
    ultimately show ?thesis by simp
  next
    case False
    then have "rs' = []" using rs' by (simp add: fragment_rest_done)
    moreover have "rx_complete ?s cmd payload"
      using False less.prems(5,7) acc by (auto simp: rx_complete_def)
    ultimately show ?thesis using run by auto
  qed
qed

lemma fragment_ok:
  "length payload \<le> 7609 \<Longrightarrow> \<exists>rs. fragment ovf cid cmd payload = Inr rs"
  using fragment_rest_ok [of payload "min (length payload) 57" 0 ovf cid]
  by (auto simp: fragment_def Let_def ctaphid_consts min_def)

lemma rx_run_fragment:
  assumes "fragment ovf cid cmd payload = Inr rs" "length payload \<le> 7609" "unat cmd < 128"
  shows "\<exists>s'. rx_complete s' cmd payload \<and> rx_run ovf s (rs @ later) = rx_then ovf (rx_finish s') later"
proof -
  let ?s = "s\<lparr>response_cmd := cmd, acc := take 57 payload, remaining := length payload - 57,
              expected_seq := 0\<rparr>"
  from assms(1) obtain rs' where
      rs: "rs = init_report cid cmd payload # rs'"
    and rs': "fragment_rest ovf cid payload (min (length payload) 57) 0 = Inr rs'"
    by (auto simp: fragment_def Let_def ctaphid_consts and_then_Inr)
  have "rx_step ovf s (init_report cid cmd payload) = rx_finish ?s"
    by (rule rx_step_init_report) (use assms in auto)
  then have run: "rx_run ovf s (rs @ later) = rx_then ovf (rx_finish ?s) (rs' @ later)"
    by (simp only: rs append_Cons rx_run_Cons)
  show ?thesis
  proof (cases "57 < length payload")
    case True
    then have "remaining ?s \<noteq> 0" by simp
    then have "rx_run ovf s (rs @ later) = rx_run ovf ?s (rs' @ later)"
      unfolding run by (rule rx_then_incomplete)
    moreover have "\<exists>s'. rx_complete s' cmd payload
        \<and> rx_run ovf ?s (rs' @ later) = rx_then ovf (rx_finish s') later"
      by (rule rx_run_fragment_rest [of ovf cid payload 57 0 rs' ?s cmd])
        (use True rs' assms(2) in \<open>auto simp: min_def\<close>)
    ultimately show ?thesis by simp
  next
    case False
    then have "rs' = []" using rs' by (simp add: fragment_rest_done)
    moreover have "rx_complete ?s cmd payload" using False by (simp add: rx_complete_def)
    ultimately show ?thesis using run by auto
  qed
qed

lemma rx_finish_complete:
  assumes "rx_complete s cmd payload"
  shows "rx_finish s = (if cmd = CTAPHID_KEEPALIVE then Rx_More s
     else if cmd = CTAPHID_ERROR then Rx_Fail (Ctaphid_Error payload) else Rx_Done cmd payload)"
  using assms by (auto simp: rx_finish_def rx_complete_def)

lemma rx_run_message:
  assumes "fragment ovf cid cmd payload = Inr rs" "length payload \<le> 7609" "unat cmd < 128"
    and "cmd \<noteq> CTAPHID_KEEPALIVE"
  shows "rx_run ovf s (rs @ later) =
    (if cmd = CTAPHID_ERROR then Rx_Fail (Ctaphid_Error payload) else Rx_Done cmd payload, later)"
  using rx_run_fragment [OF assms(1-3), of s later] assms(4)
  by (auto simp: rx_finish_complete rx_then_def)

lemma rx_run_keepalive:
  assumes "fragment ovf cid CTAPHID_KEEPALIVE payload = Inr rs" "length payload \<le> 7609"
  shows "\<exists>s'. rx_run ovf s (rs @ later) = rx_run ovf s' later"
  using rx_run_fragment [OF assms, of s later]
  by (auto simp: rx_finish_complete rx_then_def ctaphid_cmds)

text \<open>KEEPALIVE messages before the answer change nothing.\<close>

definition keepalive_reports :: "bool \<Rightarrow> u32 \<Rightarrow> bytes list \<Rightarrow> bytes list \<Rightarrow> bool" where
  "keepalive_reports ovf cid ps rs \<longleftrightarrow>
     (\<exists>rss. rs = concat rss
        \<and> list_all2 (\<lambda>p r. length p \<le> 7609 \<and> fragment ovf cid CTAPHID_KEEPALIVE p = Inr r) ps rss)"

lemma rx_run_keepalives:
  assumes "keepalive_reports ovf cid ps ks"
    and "\<And>s. rx_run ovf s later = v"
  shows "rx_run ovf s (ks @ later) = v"
proof -
  from assms(1) obtain rss where ks: "ks = concat rss"
    and all: "list_all2 (\<lambda>p r. length p \<le> 7609 \<and> fragment ovf cid CTAPHID_KEEPALIVE p = Inr r) ps rss"
    by (auto simp: keepalive_reports_def)
  from all show ?thesis unfolding ks
  proof (induction arbitrary: s rule: list_all2_induct)
    case Nil
    then show ?case using assms(2) by simp
  next
    case (Cons p ps r rss)
    then obtain s' where "rx_run ovf s (r @ (concat rss @ later)) = rx_run ovf s' (concat rss @ later)"
      using rx_run_keepalive by blast
    with Cons show ?case by simp
  qed
qed

section \<open>A scripted device\<close>

text \<open>It plays a list of reports, then stays silent, and keeps what was written to it.\<close>

definition hid_script :: "(bytes list \<times> bytes list) hid" where
  "hid_script = \<lparr>hid_write = (\<lambda>(rs, ws) b. (True, (rs, ws @ [b]))),
     hid_read = (\<lambda>(rs, ws). case rs of [] \<Rightarrow> (Some [], ([], ws)) | r # rs' \<Rightarrow> (Some r, (rs', ws)))\<rparr>"

lemma write_reports_script:
  "write_reports hid_script rs (replies, ws) = Some (Inr (), (replies, ws @ map ((#) 0) rs))"
  by (induction rs arbitrary: ws) (simp_all add: hid_script_def)

text \<open>Against such a device the loop always ends, with the verdict of \<open>rx_run\<close>.\<close>

definition rx_result :: "rx_verdict \<Rightarrow> (fido_error, u8 \<times> bytes) result" where
  "rx_result v = (case v of Rx_More _ \<Rightarrow> Inl Read_Timeout | Rx_Fail e \<Rightarrow> Inl e
     | Rx_Done cmd data \<Rightarrow> Inr (cmd, data))"

lemma read_loop_script:
  "read_loop ovf hid_script s (rs, ws) =
     Some (rx_result (fst (rx_run ovf s rs)), (snd (rx_run ovf s rs), ws))"
proof (induction rs arbitrary: s)
  case Nil
  show ?case
    by (subst read_loop.simps) (simp add: hid_script_def rx_step_def rx_result_def)
next
  case (Cons r rs)
  show ?case
    using Cons.IH
    by (subst read_loop.simps)
      (simp add: hid_script_def [THEN arg_cong, of hid_read] rx_result_def split: rx_verdict.split)
qed

section \<open>Properties\<close>

subsection \<open>Transport\<close>

lemma exchange_script:
  assumes "fragment ovf cid cmd req = Inr out"
  shows "exchange ovf hid_script cid cmd req (replies, ws) =
    Some (rx_result (fst (rx_run ovf rx_init replies)),
          (snd (rx_run ovf rx_init replies), ws @ map ((#) 0) out))"
  using assms
  by (simp add: exchange_def io_then_def write_reports_script read_loop_script)

text \<open>C11. Fragmentation and reassembly are inverse: for every request and every reply of at most
  7609 bytes, \<open>exchange\<close> writes the fragments of the request behind a zero report id and
  returns the command and payload the device fragmented, whatever KEEPALIVE messages come before
  the answer, and leaves the reports that follow unread.\<close>

theorem exchange_roundtrip:
  assumes "length req \<le> 7609"
    and "keepalive_reports ovf cid' ps ks"
    and "fragment ovf cid' cmd' reply = Inr rs" "length reply \<le> 7609" "unat cmd' < 128"
    and "cmd' \<noteq> CTAPHID_KEEPALIVE" "cmd' \<noteq> CTAPHID_ERROR"
  shows "\<exists>out. fragment ovf cid cmd req = Inr out
    \<and> exchange ovf hid_script cid cmd req (ks @ rs @ later, ws)
      = Some (Inr (cmd', reply), (later, ws @ map ((#) 0) out))"
proof -
  obtain out where out: "fragment ovf cid cmd req = Inr out"
    using fragment_ok [OF assms(1)] by blast
  have "rx_run ovf rx_init (ks @ (rs @ later)) = (Rx_Done cmd' reply, later)"
    by (rule rx_run_keepalives [OF assms(2)])
      (simp add: rx_run_message [OF assms(3-6)] assms(7))
  with exchange_script [OF out, of "ks @ rs @ later" ws] out show ?thesis
    by (simp add: rx_result_def)
qed

theorem exchange_roundtrip_witness:
  "\<exists>out rs. fragment True 7 CTAPHID_MSG [1, 2, 3] = Inr out
    \<and> exchange True hid_script 7 CTAPHID_MSG [1, 2, 3] ([] @ rs @ [[9]], [])
      = Some (Inr (CTAPHID_MSG, replicate 100 5), ([[9]], [] @ map ((#) 0) out))"
proof -
  obtain rs where rs: "fragment True 7 CTAPHID_MSG (replicate 100 5) = Inr rs"
    using fragment_ok [of "replicate 100 5" True 7 CTAPHID_MSG] by auto
  have "keepalive_reports True 7 [] []" by (auto simp: keepalive_reports_def)
  from exchange_roundtrip [OF _ this rs, of "[1, 2, 3]" 7 CTAPHID_MSG "[[9]]" "[]"] show ?thesis
    by (auto simp: ctaphid_cmds)
qed

lemma add_u8_False: "add_u8 False a b = Inr (a + b)"
  by (simp add: add_u8_def)

lemma fragment_rest_release:
  "\<exists>rs. fragment_rest False cid payload offset (word_of_nat k) = Inr rs
    \<and> length rs = (length payload - offset + 58) div 59
    \<and> (\<forall>i < length rs. rs ! i ! 4 = word_of_nat (k + i))"
proof (induction "length payload - offset" arbitrary: offset k rule: less_induct)
  case less
  show ?case
  proof (cases "offset < length payload")
    case True
    let ?n = "min (length payload - offset) 59"
    have "length payload - (offset + ?n) < length payload - offset" using True by simp
    from less [OF this, of "Suc k"] obtain rs' where
        rs': "fragment_rest False cid payload (offset + ?n) (word_of_nat (Suc k)) = Inr rs'"
      and len: "length rs' = (length payload - (offset + ?n) + 58) div 59"
      and nth: "\<And>i. i < length rs' \<Longrightarrow> rs' ! i ! 4 = word_of_nat (Suc k + i)"
      by blast
    let ?r = "cont_report cid (word_of_nat k) (take ?n (drop offset payload))"
    have "fragment_rest False cid payload offset (word_of_nat k) = Inr (?r # rs')"
      using True rs' by (subst fragment_rest.simps) (simp add: Let_def ctaphid_consts add_u8_False add.commute)
    moreover have "length (?r # rs') = (length payload - offset + 58) div 59"
      using True len by (cases "length payload - offset \<le> 59") (auto simp: min_def div_if)
    moreover have "(?r # rs') ! i ! 4 = word_of_nat (k + i)" if "i < length (?r # rs')" for i
      using nth [of "i - 1"] that
      by (cases i) (simp_all add: cont_report_shape nth_append)
    ultimately show ?thesis by blast
  qed (simp add: fragment_rest_done)
qed

text \<open>C36. 7609 bytes is the limit of the framing: in a release build \<open>fragment\<close> always
  returns, with \<open>1 + ceil((n - 57) / 59)\<close> reports, and its continuation reports are
  recognisable as such, their sequence byte below 0x80, exactly when the payload has at most
  7609 bytes; past that the sequence number runs into the bit that marks an initialization
  report.  Nothing in \<open>fragment\<close> rejects such a payload.\<close>

theorem fragment_limit:
  "\<exists>rs. fragment False cid cmd payload = Inr rs
    \<and> length rs = 1 + (length payload - 57 + 58) div 59
    \<and> ((\<forall>r \<in> set (tl rs). r ! 4 AND 0x80 = 0) \<longleftrightarrow> length payload \<le> 7609)"
proof -
  have "word_of_nat 0 = (0 :: u8)" by simp
  then obtain rs where rs: "fragment_rest False cid payload (min (length payload) 57) 0 = Inr rs"
    and len: "length rs = (length payload - min (length payload) 57 + 58) div 59"
    and nth: "\<And>i. i < length rs \<Longrightarrow> rs ! i ! 4 = word_of_nat i"
    using fragment_rest_release [of cid payload "min (length payload) 57" 0] by auto
  have len': "length rs = (length payload - 57 + 58) div 59"
    using len by (simp add: min_def split: if_splits)
  have "(\<forall>r \<in> set rs. r ! 4 AND 0x80 = 0) \<longleftrightarrow> length rs \<le> 128"
  proof
    assume all: "\<forall>r \<in> set rs. r ! 4 AND 0x80 = 0"
    show "length rs \<le> 128"
    proof (rule ccontr)
      assume "\<not> length rs \<le> 128"
      then have "rs ! 128 ! 4 = 128" "rs ! 128 \<in> set rs"
        using nth [of 128] by auto
      with all have "(128 :: u8) AND 0x80 = 0" by fastforce
      then show False by simp
    qed
  next
    assume "length rs \<le> 128"
    then show "\<forall>r \<in> set rs. r ! 4 AND 0x80 = 0"
      using nth by (auto simp: high_bit_clear_iff unat_of_nat_u8 in_set_conv_nth simp del: of_nat_unat)
  qed
  moreover have "length rs \<le> 128 \<longleftrightarrow> length payload \<le> 7609"
    using div_less_iff_less_mult [of 59 "length payload - 57 + 58" 129] unfolding len' by auto
  ultimately show ?thesis
    using rs len' by (auto simp: fragment_def Let_def ctaphid_consts)
qed

theorem fragment_limit_witness:
  "\<exists>rs. fragment False 1 3 (replicate 7610 0) = Inr rs \<and> length rs = 130
    \<and> (\<exists>r \<in> set (tl rs). r ! 4 AND 0x80 \<noteq> 0)"
  using fragment_limit [of 1 3 "replicate 7610 0"] by auto

lemma rx_finish_More: "rx_finish s = Rx_More s' \<Longrightarrow> s' = s"
  by (auto simp: rx_finish_def split: if_splits)

lemma rx_finish_no_panic: "rx_finish s \<noteq> Rx_Fail (Fido_Panic p)"
  by (auto simp: rx_finish_def)

text \<open>The sequence counter stays in range, because a continuation report cannot match 128.\<close>

definition seq_ok :: "rx \<Rightarrow> bool" where
  "seq_ok s \<longleftrightarrow> unat (expected_seq s) \<le> 128"

lemma rx_continue_seq:
  assumes "seq_ok s" "r ! 4 AND 0x80 = 0"
  shows "rx_continue ovf s r = rx_continue False s r"
    and "rx_continue ovf s r = Inr s' \<Longrightarrow> seq_ok s'"
proof -
  have "unat (r ! 4) < 128" using assms(2) by (simp add: high_bit_clear_iff)
  then show "rx_continue ovf s r = rx_continue False s r"
    and "rx_continue ovf s r = Inr s' \<Longrightarrow> seq_ok s'"
    by (auto simp: rx_continue_def add_u8_small seq_ok_def unat_suc_small Let_def split: if_splits)
qed

lemma rx_initialize_seq: "rx_initialize s r = Inr s' \<Longrightarrow> seq_ok s'"
  by (auto simp: rx_initialize_def seq_ok_def Let_def split: if_splits)

lemma rx_step_seq:
  assumes "seq_ok s"
  shows "rx_step ovf s r = rx_step False s r"
    and "rx_step ovf s r = Rx_More s' \<Longrightarrow> seq_ok s'"
proof -
  let ?t = "if r ! 4 AND 0x80 \<noteq> 0 then rx_initialize s r else rx_continue ovf s r"
  have eq: "?t = (if r ! 4 AND 0x80 \<noteq> 0 then rx_initialize s r else rx_continue False s r)"
    using rx_continue_seq(1) [OF assms, of r ovf] by (cases "r ! 4 AND 0x80 = 0") simp_all
  show "rx_step ovf s r = rx_step False s r"
    unfolding rx_step_def eq ..
  have ok: "seq_ok t" if "?t = Inr t" for t
    using that rx_initialize_seq rx_continue_seq(2) [OF assms] by (cases "r ! 4 AND 0x80 = 0") simp_all
  assume "rx_step ovf s r = Rx_More s'"
  then obtain t where "?t = Inr t" "rx_finish t = Rx_More s'"
    unfolding rx_step_def by (cases ?t) (simp_all split: if_split_asm)
  with ok show "seq_ok s'" by (auto dest: rx_finish_More)
qed

lemma rx_run_seq: "seq_ok s \<Longrightarrow> rx_run ovf s rs = rx_run False s rs"
proof (induction rs arbitrary: s)
  case (Cons r rs)
  show ?case
    using Cons.IH rx_step_seq [OF Cons.prems, of ovf r]
    by (auto split: rx_verdict.split)
qed simp

lemma rx_run_panic:
  "seq_ok s \<Longrightarrow> fst (rx_run False s rs) = Rx_Fail (Fido_Panic p) \<Longrightarrow>
   p = Index_Out_Of_Bounds \<and> (\<exists>r \<in> set rs. (length r = 5 \<or> length r = 6) \<and> r ! 4 AND 0x80 \<noteq> 0)"
proof (induction rs arbitrary: s)
  case (Cons r rs)
  show ?case
  proof (cases "rx_step False s r")
    case (Rx_More s')
    with Cons rx_step_seq(2) [OF Cons.prems(1) Rx_More] show ?thesis by auto
  next
    case (Rx_Fail e)
    with Cons.prems(2) have "rx_step False s r = Rx_Fail (Fido_Panic p)" by simp
    then show ?thesis
      by (auto simp: rx_step_def rx_initialize_def rx_continue_def ctaphid_consts add_u8_False
          rx_finish_no_panic Let_def split: if_splits)
  next
    case (Rx_Done c d)
    with Cons.prems(2) show ?thesis by simp
  qed
qed simp

text \<open>C37. The only panic the read loop can run into is the unchecked read of the length field: it
  never overflows its sequence counter, so debug and release builds agree on every sequence of
  reports, and when it panics some report announced a new message in only five or six bytes.\<close>

theorem read_loop_panics:
  "rx_run True rx_init rs = rx_run False rx_init rs
   \<and> (fst (rx_run ovf rx_init rs) = Rx_Fail (Fido_Panic p) \<longrightarrow>
        p = Index_Out_Of_Bounds
        \<and> (\<exists>r \<in> set rs. (length r = 5 \<or> length r = 6) \<and> r ! 4 AND 0x80 \<noteq> 0))"
proof -
  have ok: "seq_ok rx_init" by (simp add: seq_ok_def rx_init_def)
  show ?thesis
    using rx_run_seq [OF ok, of True rs] rx_run_seq [OF ok, of ovf rs] rx_run_panic [OF ok, of rs p]
    by metis
qed

text \<open>Such a report does take the harness down, where a malformed report should be an error.\<close>

theorem read_loop_panics_witness:
  "fst (rx_run True rx_init [[0, 0, 0, 7, 0x86, 0]]) = Rx_Fail (Fido_Panic Index_Out_Of_Bounds)
   \<and> (\<exists>r \<in> set [[0, 0, 0, 7, 0x86, 0]]. (length r = 5 \<or> length r = 6) \<and> r ! 4 AND (0x80 :: u8) \<noteq> 0)"
proof -
  have "fst (rx_run True rx_init [[0, 0, 0, 7, 0x86, 0]]) = Rx_Fail (Fido_Panic Index_Out_Of_Bounds)"
    by (simp add: rx_step_def rx_initialize_def ctaphid_consts)
  with read_loop_panics [of "[[0, 0, 0, 7, 0x86, 0]]" True Index_Out_Of_Bounds]
  show ?thesis by blast
qed










lemma four_bytes: "length c = 4 \<Longrightarrow> \<exists>c0 c1 c2 c3. c = [c0, c1, c2, c3]"
  by (auto simp: length_Suc_conv eval_nat_numeral)

lemma rx_step_ignores_cid:
  assumes "length c = 4" "length c' = 4"
  shows "rx_step ovf s (c @ r) = rx_step ovf s (c' @ r)"
proof -
  from four_bytes [OF assms(1)] four_bytes [OF assms(2)] obtain a b d e a' b' d' e' where
      "c = [a, b, d, e]" "c' = [a', b', d', e']"
    by auto
  then show ?thesis
    by (simp add: rx_step_def rx_initialize_def rx_continue_def ctaphid_consts split del: if_split
        cong: if_cong)
qed

lemma rx_step_stray:
  assumes "length c = 4"
  shows "rx_step ovf rx_init (c @ 0 # r) = Rx_Done 0 []"
  using four_bytes [OF assms]
  by (auto simp: rx_step_def rx_continue_def ctaphid_consts rx_init_def add_u8_def rx_finish_def
      ctaphid_cmds)

text \<open>Two checks the CTAPHID reader does not make: it never looks at the channel id, so a report
  for any other channel is taken for its own, and before any message has begun a stray
  continuation report with sequence number 0 is taken for a complete, empty answer with
  command 0.\<close>

theorem read_loop_unchecked:
  assumes "length c = 4" "length c' = 4"
  shows "rx_step ovf s (c @ r) = rx_step ovf s (c' @ r)
    \<and> rx_step ovf rx_init (c @ 0 # r) = Rx_Done 0 []"
  using rx_step_ignores_cid [OF assms] rx_step_stray [OF assms(1)] by simp

theorem read_loop_unchecked_witness:
  "rx_step True rx_init ([1, 2, 3, 4] @ [0]) = Rx_Done 0 []
   \<and> rx_step True rx_init ([1, 2, 3, 4] @ [0]) = rx_step True rx_init ([9, 9, 9, 9] @ [0])"
  using read_loop_unchecked [of "[1, 2, 3, 4]" "[9, 9, 9, 9]" True rx_init "[0]"]
    read_loop_unchecked [of "[1, 2, 3, 4]" "[9, 9, 9, 9]" True rx_init "[]"] by simp

subsection \<open>Commands and responses\<close>

text \<open>How a U2F device reads an extended-length command: the specification of \<open>u2f_apdu\<close>.\<close>

definition parse_extended_apdu :: "bytes \<Rightarrow> (u8 \<times> u8 \<times> bytes) option" where
  "parse_extended_apdu a = (case a of
     cla # ins # p1 # p2 # ext # hi # lo # body \<Rightarrow>
       if cla = 0 \<and> p2 = 0 \<and> ext = 0 \<and> length body = unat (from_be16 hi lo) + 2
       then Some (ins, p1, take (unat (from_be16 hi lo)) body)
       else None
   | _ \<Rightarrow> None)"

lemma be16_list: "be16 w = [be16 w ! 0, be16 w ! 1]"
  by (simp add: be16_def)

lemma parse_extended_apdu_apdu:
  assumes "length data < 65536"
  shows "parse_extended_apdu (u2f_apdu ins p1 data) = Some (ins, p1, data)"
proof -
  let ?n = "word_of_nat (length data) :: u16"
  have "u2f_apdu ins p1 data =
      0 # ins # p1 # 0 # 0 # (be16 ?n ! 0) # (be16 ?n ! 1) # data @ [0, 0]"
    unfolding u2f_apdu_def by (subst be16_list) simp
  moreover have "unat (from_be16 (be16 ?n ! 0) (be16 ?n ! 1)) = length data"
    using assms by (simp only: from_be16_be16 unat_of_nat_u16 mod_less)
  ultimately show ?thesis by (simp add: parse_extended_apdu_def)
qed

lemma parse_registration_Inr:
  assumes "parse_registration env resp = Inr (pubkey, kh)"
  shows "resp ! 0 = 0x05" "67 + length kh \<le> length resp" "kh = take (unat (resp ! 66)) (drop 67 resp)"
    "length kh = unat (resp ! 66)" "u2f_key_from_sec1 env (take 65 (drop 1 resp)) = Some pubkey"
  using assms
  by (auto simp: parse_registration_def and_then_Inr ok_or_Inr Let_def get_range_Some get_at_def
      split: if_splits)

text \<open>Every request of the harness is one the device can read: for any registration response the
  parser accepts, the key handle is the announced slice of the response, its length survives the
  cast to one byte, and the AUTHENTICATE command built from it parses back to instruction, mode
  and data and stays within the 7609 bytes the framing carries.\<close>

theorem authenticate_request_wellformed:
  assumes "parse_registration env resp = Inr (pubkey, kh)" "length appid = 32"
  shows "kh = take (unat (resp ! 66)) (drop 67 resp)
    \<and> unat (word_of_nat (length kh) :: u8) = length kh
    \<and> parse_extended_apdu (u2f_apdu 0x02 0x03 (authenticate_data appid kh))
        = Some (0x02, 0x03, authenticate_data appid kh)
    \<and> length (u2f_apdu 0x02 0x03 (authenticate_data appid kh)) \<le> 7609"
proof -
  have kh: "length kh < 256" using parse_registration_Inr(4) [OF assms(1)] unat_u8_bound by simp
  have len: "length (authenticate_data appid kh) = 65 + length kh"
    using assms(2) by (simp add: authenticate_data_def u2f_challenge_def)
  have "parse_extended_apdu (u2f_apdu 0x02 0x03 (authenticate_data appid kh))
        = Some (0x02, 0x03, authenticate_data appid kh)"
    by (rule parse_extended_apdu_apdu) (use len kh in simp)
  moreover have "length (u2f_apdu 0x02 0x03 (authenticate_data appid kh)) \<le> 7609"
    using len kh by (simp add: u2f_apdu_def)
  moreover have "unat (word_of_nat (length kh) :: u8) = length kh"
    using kh by (simp only: unat_of_nat_u8 mod_less)
  ultimately show ?thesis using parse_registration_Inr(3) [OF assms(1)] by blast
qed

lemma parse_registration_message:
  "length pk = 65 \<Longrightarrow> length kh < 256 \<Longrightarrow> u2f_key_from_sec1 env pk = Some key \<Longrightarrow>
   parse_registration env (0x05 # pk @ word_of_nat (length kh) # kh @ cert) = Inr (key, kh)"
proof -
  assume pk: "length pk = 65" and kh: "length kh < 256" and key: "u2f_key_from_sec1 env pk = Some key"
  let ?r = "0x05 # pk @ word_of_nat (length kh) # kh @ cert"
  have n: "unat (?r ! 66) = length kh"
    using pk kh by (simp add: nth_append unat_of_nat_u8 del: of_nat_unat)
  then have n': "unat ((pk @ word_of_nat (length kh) # kh @ cert) ! 65) = length kh"
    by simp
  have d: "get_range ?r 67 (67 + length kh) = Some kh"
    using pk by (simp add: get_range_def)
  show "parse_registration env ?r = Inr (key, kh)"
    using pk key by (simp add: parse_registration_def n' d Let_def)
qed

lemma parse_authentication_message:
  "u2f_sig_from_der env sigb = Some sig \<Longrightarrow> sigb \<noteq> [] \<Longrightarrow>
   parse_authentication env (presence # be32 counter @ sigb) = Inr (presence, counter, sig)"
proof -
  assume s: "u2f_sig_from_der env sigb = Some sig" and ne: "sigb \<noteq> []"
  let ?r = "presence # be32 counter @ sigb"
  have nth: "?r ! 1 = be32 counter ! 0" "?r ! 2 = be32 counter ! 1" "?r ! 3 = be32 counter ! 2"
      "?r ! 4 = be32 counter ! 3" "drop 5 ?r = sigb"
    by (simp_all add: nth_append)
  have "\<not> length ?r < 6" using ne by (cases sigb) simp_all
  then show "parse_authentication env ?r = Inr (presence, counter, sig)"
    using s by (simp only: parse_authentication_def nth from_be32_be32 if_False) simp
qed

text \<open>Both parsers invert the wire formats they document: a registration message with a 65-byte
  key the library accepts and a key handle of at most 255 bytes yields that key and handle
  whatever certificate and signature follow, and an authentication message yields its presence
  byte, its big-endian counter and its signature.\<close>

theorem u2f_responses_roundtrip:
  assumes "length pk = 65" "length kh < 256" "u2f_key_from_sec1 env pk = Some key"
    and "u2f_sig_from_der env sigb = Some sig" "sigb \<noteq> []"
  shows "parse_registration env (0x05 # pk @ word_of_nat (length kh) # kh @ cert) = Inr (key, kh)
    \<and> parse_authentication env (presence # be32 counter @ sigb) = Inr (presence, counter, sig)"
  using parse_registration_message [OF assms(1-3)] parse_authentication_message [OF assms(4,5)]
  by simp

text \<open>The harness reports success only for a verified signature: if the sequence ends without an
  error then the registration response yielded a key and a key handle, the authentication
  response, asked for with that handle, yielded presence, counter and signature, and the library
  verified the signature with that key over the SHA-256 of application id, presence, counter and
  challenge.\<close>

theorem u2f_sequence_sound:
  assumes "u2f_sequence env w = Some (Inr (), w')"
  shows "\<exists>cid w1 w2 reg key kh auth presence counter sig.
    u2f_await_presence env cid
        (u2f_apdu 0x01 0x00 (register_data (sha256 env (bytes_of_str ''https://foundation.xyz'')))) w1
      = Some (Inr reg, w2)
    \<and> parse_registration env reg = Inr (key, kh)
    \<and> u2f_await_presence env cid (u2f_apdu 0x02 0x03
        (authenticate_data (sha256 env (bytes_of_str ''https://foundation.xyz'')) kh)) w2
      = Some (Inr auth, w')
    \<and> parse_authentication env auth = Inr (presence, counter, sig)
    \<and> u2f_verify env key (sha256 env
        (signed_data (sha256 env (bytes_of_str ''https://foundation.xyz'')) presence counter)) sig"
  using assms
  by (auto simp: u2f_sequence_def Let_def io_then_Inr io_lift_def split: if_splits; blast)

subsection \<open>A demonstration device, for the witnesses\<close>

definition u2f_demo_env :: "(bytes list \<times> bytes list, bytes, bytes) fido_env" where
  "u2f_demo_env = \<lparr>overflow_checks = True, hid_dev = hid_script, clock_now = (\<lambda>w. (0, w)),
     clock_sleep = (\<lambda>w n. w), sha256 = (\<lambda>_. replicate 32 0), u2f_key_from_sec1 = Some,
     u2f_sig_from_der = Some, u2f_verify = (\<lambda>k h sig. sig = [1])\<rparr>"

definition u2f_demo_reply :: "u8 \<Rightarrow> bytes \<Rightarrow> bytes list" where
  "u2f_demo_reply cmd p = (case fragment True 7 cmd p of Inr rs \<Rightarrow> rs | Inl _ \<Rightarrow> [])"

lemma u2f_demo_exchange:
  assumes "length req \<le> 7609" "length reply \<le> 7609" "cmd' = CTAPHID_INIT \<or> cmd' = CTAPHID_MSG"
  shows "\<exists>ws'. env_exchange u2f_demo_env cid cmd req (u2f_demo_reply cmd' reply @ later, ws)
    = Some (Inr (cmd', reply), (later, ws'))"
proof -
  obtain out where out: "fragment True cid cmd req = Inr out"
    using fragment_ok [OF assms(1)] by blast
  obtain rs where rs: "fragment True 7 cmd' reply = Inr rs"
    using fragment_ok [OF assms(2)] by blast
  have "unat cmd' < 128" "cmd' \<noteq> CTAPHID_KEEPALIVE" "cmd' \<noteq> CTAPHID_ERROR"
    using assms(3) by (auto simp: ctaphid_cmds)
  with rx_run_message [OF rs assms(2), of rx_init later]
  have "rx_run True rx_init (u2f_demo_reply cmd' reply @ later) = (Rx_Done cmd' reply, later)"
    by (simp add: u2f_demo_reply_def rs)
  with exchange_script [OF out, of "u2f_demo_reply cmd' reply @ later" ws] show ?thesis
    by (simp add: env_exchange_def u2f_demo_env_def rx_result_def)
qed

lemma u2f_demo_once:
  assumes "length a \<le> 7609" "length data \<le> 7000"
  shows "\<exists>ws'. u2f_once u2f_demo_env cid a (u2f_demo_reply CTAPHID_MSG (data @ [0x90, 0]) @ later, ws)
    = Some (Inr (data, 0x9000), (later, ws'))"
proof -
  have "from_be16 0x90 0 = 0x9000" by (simp add: from_be16_def)
  then have "u2f_split (CTAPHID_MSG, data @ [0x90, 0]) = Inr (data, 0x9000)"
    by (simp add: u2f_split_def nth_append)
  with u2f_demo_exchange [OF assms(1), of "data @ [0x90, 0]" CTAPHID_MSG cid CTAPHID_MSG later ws] assms(2)
  show ?thesis by (auto simp: u2f_once_def io_then_def)
qed

lemma u2f_demo_presence:
  assumes "length a \<le> 7609" "length data \<le> 7000"
  shows "\<exists>ws'. u2f_await_presence u2f_demo_env cid a
      (u2f_demo_reply CTAPHID_MSG (data @ [0x90, 0]) @ later, ws) = Some (Inr data, (later, ws'))"
  using u2f_demo_once [OF assms, of cid later ws]
  by (auto simp: u2f_await_presence_def presence_loop.simps u2f_demo_env_def)

definition u2f_demo_registration :: bytes where
  "u2f_demo_registration = 0x05 # replicate 65 4 @ word_of_nat (length [7, 7 :: u8]) # [7, 7] @ []"

definition u2f_demo_authentication :: bytes where
  "u2f_demo_authentication = 1 # be32 5 @ [1]"

lemma u2f_demo_run: "\<exists>w'. u2f_sequence u2f_demo_env
    (u2f_demo_reply CTAPHID_INIT (replicate 12 3)
       @ u2f_demo_reply CTAPHID_MSG ([0x55] @ [0x90, 0])
       @ u2f_demo_reply CTAPHID_MSG (u2f_demo_registration @ [0x90, 0])
       @ u2f_demo_reply CTAPHID_MSG (u2f_demo_authentication @ [0x90, 0]) @ [], [])
  = Some (Inr (), w')"
proof -
  let ?env = u2f_demo_env and ?cid = "from_be32 3 3 3 3" and ?app = "replicate 32 0 :: bytes"
  let ?l3 = "u2f_demo_reply CTAPHID_MSG (u2f_demo_authentication @ [0x90, 0]) @ []"
  let ?l2 = "u2f_demo_reply CTAPHID_MSG (u2f_demo_registration @ [0x90, 0]) @ ?l3"
  let ?l1 = "u2f_demo_reply CTAPHID_MSG ([0x55] @ [0x90, 0]) @ ?l2"
  obtain w1 where 1: "ctaphid_init ?env (u2f_demo_reply CTAPHID_INIT (replicate 12 3) @ ?l1, [])
      = Some (Inr ?cid, (?l1, w1))"
    using u2f_demo_exchange [of "replicate 8 0x42" "replicate 12 3" CTAPHID_INIT BROADCAST_CID CTAPHID_INIT ?l1 "[]"]
    by (auto simp: ctaphid_init_def io_then_def get_range_def nth_append)
  obtain w2 where 2: "u2f ?env ?cid (u2f_apdu 0x03 0x00 []) (?l1, w1) = Some (Inr [0x55], (?l2, w2))"
    using u2f_demo_once [of "u2f_apdu 0x03 0x00 []" "[0x55]" ?cid ?l2 w1]
    by (auto simp: u2f_def io_then_def u2f_apdu_def)
  obtain w3 where 3: "u2f_await_presence ?env ?cid (u2f_apdu 0x01 0x00 (register_data ?app)) (?l2, w2)
      = Some (Inr u2f_demo_registration, (?l3, w3))"
    using u2f_demo_presence [of "u2f_apdu 0x01 0x00 (register_data ?app)" u2f_demo_registration ?cid ?l3 w2]
    by (auto simp: u2f_apdu_def register_data_def u2f_challenge_def u2f_demo_registration_def)
  have 4: "parse_registration ?env u2f_demo_registration = Inr (replicate 65 4, [7, 7])"
    unfolding u2f_demo_registration_def
    by (simp add: parse_registration_def get_range_def u2f_demo_env_def nth_append)
  obtain w4 where 5: "u2f_await_presence ?env ?cid
        (u2f_apdu 0x02 0x03 (authenticate_data ?app [7, 7])) (?l3, w3)
      = Some (Inr u2f_demo_authentication, ([], w4))"
    using u2f_demo_presence [of "u2f_apdu 0x02 0x03 (authenticate_data ?app [7, 7])"
        u2f_demo_authentication ?cid "[]" w3]
    by (auto simp: u2f_apdu_def authenticate_data_def u2f_challenge_def u2f_demo_authentication_def)
  have 6: "\<exists>c. parse_authentication ?env u2f_demo_authentication = Inr (1, c, [1])"
    by (simp add: u2f_demo_authentication_def parse_authentication_def u2f_demo_env_def be32_def)
  have "sha256 ?env = (\<lambda>_. ?app)" "u2f_verify ?env = (\<lambda>k h sig. sig = [1])"
    by (simp_all add: u2f_demo_env_def)
  with 1 2 3 4 5 6 show ?thesis
    by (auto simp: u2f_sequence_def Let_def)
qed

theorem u2f_sequence_sound_witness:
  "\<exists>reg key kh auth presence counter sig.
    parse_registration u2f_demo_env reg = Inr (key, kh)
    \<and> parse_authentication u2f_demo_env auth = Inr (presence, counter, sig)
    \<and> u2f_verify u2f_demo_env key (sha256 u2f_demo_env (signed_data (replicate 32 0) presence counter)) sig"
proof -
  have "sha256 u2f_demo_env x = replicate 32 0" for x by (simp add: u2f_demo_env_def)
  then show ?thesis
    using u2f_demo_run u2f_sequence_sound [of u2f_demo_env] by metis
qed

theorem authenticate_request_wellformed_witness:
  "length (u2f_apdu 0x02 0x03 (authenticate_data (replicate 32 0) [7, 7])) \<le> 7609"
proof -
  have "parse_registration u2f_demo_env u2f_demo_registration = Inr (replicate 65 4, [7, 7])"
    unfolding u2f_demo_registration_def
    by (simp add: parse_registration_def get_range_def u2f_demo_env_def nth_append)
  from authenticate_request_wellformed [OF this, of "replicate 32 0"] show ?thesis
    by (meson length_replicate)
qed

theorem u2f_responses_roundtrip_witness:
  "parse_registration u2f_demo_env (0x05 # replicate 65 4 @ word_of_nat (length [7, 7 :: u8]) # [7, 7] @ [1])
     = Inr (replicate 65 4, [7, 7])
   \<and> parse_authentication u2f_demo_env (1 # be32 5 @ [9]) = Inr (1, 5, [9])"
  using u2f_responses_roundtrip [of "replicate 65 4" "[7, 7]" u2f_demo_env "replicate 65 4" "[9]" "[9]"
      "[1]" 1 5]
  by (simp add: u2f_demo_env_def)

subsection \<open>Waiting for the user\<close>

lemma rx_step_error: "rx_step ovf s r = Rx_Fail e \<Longrightarrow> e \<noteq> Presence_Timeout"
  by (cases "add_u8 ovf (expected_seq s) 1")
    (auto simp: rx_step_def rx_initialize_def rx_continue_def rx_finish_def Let_def split: if_splits)

lemma read_loop_error:
  assumes "read_loop ovf dev s w = Some (Inl e, w')"
  shows "e \<noteq> Presence_Timeout"
proof -
  have "fst (Inl e :: (fido_error, u8 \<times> bytes) result, w') \<noteq> Inl Presence_Timeout"
    by (rule read_loop.raw_induct [where P = "\<lambda>_ _ _ _ r. fst r \<noteq> Inl Presence_Timeout", OF _ assms])
      (auto split: prod.splits option.splits rx_verdict.splits dest: rx_step_error)
  then show ?thesis by simp
qed

lemma write_reports_error:
  "write_reports dev rs w = Some (Inl e, w') \<Longrightarrow> e = Write_Failed"
  by (induction rs arbitrary: w) (auto split: prod.splits bool.splits)

lemma u2f_once_error: "u2f_once env cid a w = Some (Inl e, w') \<Longrightarrow> e \<noteq> Presence_Timeout"
  by (auto simp: u2f_once_def env_exchange_def exchange_def io_then_def u2f_split_def fido_panics_def
      split: option.splits sum.splits if_splits prod.splits
      dest: read_loop_error write_reports_error)

lemma presence_loop_returns:
  assumes live: "\<And>w. \<exists>r w'. u2f_once env cid a w = Some (r, w') \<and> T w \<le> T w'"
    and clock: "\<And>w. \<exists>w'. clock_now env w = (T w, w') \<and> T w \<le> T w'"
    and sleep: "\<And>w n. T w + n \<le> (T (clock_sleep env w n) :: nat)"
  shows "\<exists>r w'. presence_loop env cid a deadline w = Some (r, w')
    \<and> (r = Inl Presence_Timeout \<longrightarrow> deadline \<le> T w')"
proof (induction "deadline - T w" arbitrary: w rule: less_induct)
  case less
  obtain r w' where once: "u2f_once env cid a w = Some (r, w')" and T: "T w \<le> T w'"
    using live by blast
  obtain w'' where now: "clock_now env w' = (T w', w'')" and T': "T w' \<le> T w''"
    using clock by blast
  show ?case
  proof (cases r)
    case (Inl e)
    with once have "e \<noteq> Presence_Timeout" by (auto dest: u2f_once_error)
    with Inl show ?thesis using once by (subst presence_loop.simps) simp
  next
    case (Inr ds)
    obtain data sw where ds: "ds = (data, sw)" by (cases ds)
    show ?thesis
    proof (cases "sw = 0x6985 \<and> T w' < deadline")
      case True
      let ?v = "clock_sleep env w'' 200"
      have "deadline - T ?v < deadline - T w"
        using True T T' sleep [of w'' 200] by linarith
      from less [OF this] obtain r2 w2 where
          rec: "presence_loop env cid a deadline ?v = Some (r2, w2)"
        and late: "r2 = Inl Presence_Timeout \<longrightarrow> deadline \<le> T w2"
        by blast
      have "presence_loop env cid a deadline w = Some (r2, w2)"
        using once Inr ds True now rec by (subst presence_loop.simps) simp
      with late show ?thesis by blast
    next
      case False
      then show ?thesis
        using once Inr ds now T' by (subst presence_loop.simps) auto
    qed
  qed
qed

text \<open>C35. The poll for the user's confirmation ends: on a device that answers every transaction and
  with a clock that moves on while the harness sleeps, \<open>u2f_await_presence\<close> always returns,
  and it reports a timeout only when 60 seconds have really passed.\<close>

theorem await_presence_returns:
  assumes live: "\<And>w. \<exists>r w'. u2f_once env cid a w = Some (r, w') \<and> T w \<le> T w'"
    and clock: "\<And>w. \<exists>w'. clock_now env w = (T w, w') \<and> T w \<le> T w'"
    and sleep: "\<And>w n. T w + n \<le> (T (clock_sleep env w n) :: nat)"
  shows "\<exists>r w'. u2f_await_presence env cid a w = Some (r, w')
    \<and> (r = Inl Presence_Timeout \<longrightarrow> T w + 60000 \<le> T w')"
proof -
  obtain w1 where "clock_now env w = (T w, w1)" using clock by blast
  then show ?thesis
    using presence_loop_returns [of env cid a T "T w + 60000" w1, OF assms]
    by (simp add: u2f_await_presence_def)
qed

text \<open>A device whose user never confirms; its world is the clock itself.\<close>

definition absent_env :: "(nat, unit, unit) fido_env" where
  "absent_env = \<lparr>overflow_checks = True,
     hid_dev = \<lparr>hid_write = (\<lambda>w b. (True, w)),
                hid_read = (\<lambda>w. (Some (init_report 7 CTAPHID_MSG [0x69, 0x85]), w))\<rparr>,
     clock_now = (\<lambda>w. (w, w)), clock_sleep = (\<lambda>w n. w + n), sha256 = (\<lambda>_. []),
     u2f_key_from_sec1 = (\<lambda>_. None), u2f_sig_from_der = (\<lambda>_. None), u2f_verify = (\<lambda>_ _ _. False)\<rparr>"

lemma absent_once: "u2f_once absent_env 7 [] w = Some (Inr ([], 0x6985), w)"
proof -
  let ?r = "init_report 7 CTAPHID_MSG [0x69, 0x85]"
  have "rx_step True rx_init ?r = Rx_Done CTAPHID_MSG [0x69, 0x85]"
    by (subst rx_step_init_report) (simp_all add: ctaphid_cmds rx_finish_def)
  then have "exchange True (hid_dev absent_env) 7 CTAPHID_MSG [] w
      = Some (Inr (CTAPHID_MSG, [0x69, 0x85]), w)"
    by (simp add: exchange_def fragment_def Let_def fragment_rest_done io_then_def absent_env_def
        read_loop.simps)
  then show ?thesis
    by (simp add: u2f_once_def env_exchange_def io_then_def u2f_split_def)
      (simp add: absent_env_def from_be16_def)
qed

theorem await_presence_returns_witness:
  "\<exists>r w'. u2f_await_presence absent_env 7 [] 5 = Some (r, w')
    \<and> (r = Inl Presence_Timeout \<longrightarrow> 60005 \<le> w')"
  using await_presence_returns [of absent_env 7 "[]" "\<lambda>w. w" 5]
  by (simp add: absent_once) (simp add: absent_env_def)

end
