(* ===== verification/Framing.thy ===== *)
theory Framing
  imports Codec
begin

text \<open>
  What the two TCP transports of the program share: \<open>read_exact\<close>, the 4-byte big-endian
  length prefix, and the interface of the \<open>btp\<close> crate (chunking and reassembly), which is
  not part of the repository and therefore a parameter.  The frame format is an instance of
  \<open>prefix_codec\<close>, interpreted here for the byte layout both transports write.
\<close>

section \<open>Reading exactly\<close>

text \<open>\<open>read_exact\<close> on a stream that holds \<open>s\<close> before it is closed.\<close>

definition read_exact :: "nat \<Rightarrow> bytes \<Rightarrow> (bytes \<times> bytes) option" where
  "read_exact n s = (if n \<le> length s then Some (take n s, drop n s) else None)"

lemma read_exact_append [simp]: "length p = n \<Longrightarrow> read_exact n (p @ s) = Some (p, s)"
  by (simp add: read_exact_def)

lemma read_exact_Some: "read_exact n s = Some (p, r) \<longleftrightarrow> n \<le> length s \<and> p = take n s \<and> r = drop n s"
  by (auto simp: read_exact_def)

section \<open>Length-prefixed frames\<close>

definition frame_of :: "bytes \<Rightarrow> bytes" where
  "frame_of p = be32 (word_of_nat (length p)) @ p"

definition frame_ok :: "bytes \<Rightarrow> bool" where
  "frame_ok p \<longleftrightarrow> length p < 4294967296"

definition frame_len :: "bytes \<Rightarrow> nat" where
  "frame_len b = unat (from_be32 (b ! 0) (b ! 1) (b ! 2) (b ! 3))"

definition peel_frame :: "bytes \<Rightarrow> (bytes \<times> bytes) option" where
  "peel_frame s = do {
     (len_buf, s1) \<leftarrow> read_exact 4 s;
     read_exact (frame_len len_buf) s1 }"

lemma frame_len_be32: "frame_ok p \<Longrightarrow> frame_len (be32 (word_of_nat (length p))) = length p"
  unfolding frame_len_def frame_ok_def
  by (simp only: from_be32_be32 unat_of_nat_u32 mod_less)

lemma peel_frame_frame: "frame_ok p \<Longrightarrow> peel_frame (frame_of p @ s) = Some (p, s)"
  by (simp add: peel_frame_def frame_of_def frame_len_be32)

lemma peel_frame_shrinks: "peel_frame s = Some (p, r) \<Longrightarrow> length r < length s"
  by (auto simp: peel_frame_def read_exact_Some bind_eq_Some_conv)

lemma read_exact_extend: "read_exact n s = Some (p, r) \<Longrightarrow> read_exact n (s @ t) = Some (p, r @ t)"
  by (auto simp: read_exact_Some)

lemma peel_frame_extend: "peel_frame s = Some (p, r) \<Longrightarrow> peel_frame (s @ t) = Some (p, r @ t)"
  by (auto simp: peel_frame_def bind_eq_Some_conv read_exact_extend)

interpretation frames: stream_codec frame_of peel_frame frame_ok
  by unfold_locales
    (rule peel_frame_frame, assumption, rule peel_frame_shrinks, assumption,
      rule peel_frame_extend)

section \<open>The chunking library\<close>

text \<open>
  \<open>btp::chunk\<close>, \<open>Chunk::decode\<close> and a \<open>MasterDechunker\<close>.  A decoder error carries no
  information the callers use.
\<close>

record ('c, 'd) btp =
  chunk :: "bytes \<Rightarrow> bytes list"
  decode_chunk :: "bytes \<Rightarrow> 'c option"
  insert_chunk :: "'d \<Rightarrow> 'c \<Rightarrow> bytes option \<times> 'd"
  new_dechunker :: "'d"

text \<open>What a dechunker yields for a run of frame payloads.\<close>

fun feed :: "('c, 'd) btp \<Rightarrow> 'd \<Rightarrow> bytes list \<Rightarrow> bytes list \<times> 'd" where
  "feed lib d [] = ([], d)"
| "feed lib d (p # ps) =
     (case decode_chunk lib p of
        None \<Rightarrow> feed lib d ps
      | Some c \<Rightarrow>
          (case insert_chunk lib d c of
             (None, d') \<Rightarrow> feed lib d' ps
           | (Some record, d') \<Rightarrow>
               (case feed lib d' ps of (rs, d'') \<Rightarrow> (record # rs, d''))))"

text \<open>
  The documented behaviour the transports rely on, for messages the library can carry
  (\<open>fits\<close>): the chunks of a message fit a frame, decode, and reassemble to that message at
  the last of them, after which the dechunker is ready for the next message.
\<close>

definition btp_law :: "('c, 'd) btp \<Rightarrow> ('d \<Rightarrow> bool) \<Rightarrow> (bytes \<Rightarrow> bool) \<Rightarrow> bool" where
  "btp_law lib ready fits \<longleftrightarrow>
     ready (new_dechunker lib)
     \<and> (\<forall>m. fits m \<longrightarrow> list_all frame_ok (chunk lib m))
     \<and> (\<forall>d m. ready d \<longrightarrow> fits m \<longrightarrow>
          ready (snd (feed lib d (chunk lib m))) \<and> fst (feed lib d (chunk lib m)) = [m])"

lemma feed_append:
  "feed lib d (ps @ qs) =
     (case feed lib d ps of (rs, d') \<Rightarrow> case feed lib d' qs of (rs', d'') \<Rightarrow> (rs @ rs', d''))"
  by (induction lib d ps rule: feed.induct) (auto split: option.splits prod.splits)

lemma feed_message:
  assumes "btp_law lib ready fits" "ready d" "fits m"
  obtains d' where "feed lib d (chunk lib m) = ([m], d')" "ready d'"
proof -
  from assms have "ready (snd (feed lib d (chunk lib m)))" "fst (feed lib d (chunk lib m)) = [m]"
    unfolding btp_law_def by blast+
  with that show thesis by (metis prod.collapse)
qed

lemma feed_messages:
  assumes "btp_law lib ready fits" "ready d" "list_all fits ms"
  shows "fst (feed lib d (concat (map (chunk lib) ms))) = ms
    \<and> ready (snd (feed lib d (concat (map (chunk lib) ms))))"
  using assms(2,3)
proof (induction ms arbitrary: d)
  case (Cons m ms)
  then have "fits m" by simp
  with feed_message [OF assms(1) Cons.prems(1)] obtain d' where
      "feed lib d (chunk lib m) = ([m], d')" "ready d'" by blast
  with Cons.IH [of d'] Cons.prems(2) show ?case
    by (auto simp: feed_append split: prod.splits)
qed simp

lemma btp_law_frames_ok:
  "btp_law lib ready fits \<Longrightarrow> list_all fits ms \<Longrightarrow> list_all frame_ok (concat (map (chunk lib) ms))"
  by (induction ms) (auto simp: btp_law_def)

text \<open>
  An instance of the law, for the witnesses: a message is cut into two halves, each behind a
  byte that says whether it is the last.
\<close>

definition halves :: "(bool \<times> bytes, bytes) btp" where
  "halves = \<lparr>chunk = (\<lambda>m. [0 # take (length m div 2) m, 1 # drop (length m div 2) m]),
     decode_chunk = (\<lambda>p. case p of [] \<Rightarrow> None | b # bs \<Rightarrow> Some (b = 1, bs)),
     insert_chunk = (\<lambda>d (fin, bs). if fin then (Some (d @ bs), []) else (None, d @ bs)),
     new_dechunker = []\<rparr>"

lemma halves_law: "btp_law halves (\<lambda>d. d = []) (\<lambda>m. length m < 1000)"
  by (auto simp: btp_law_def halves_def frame_ok_def)

end
