(* ===== verification/Bridge.thy ===== *)
theory Bridge
  imports Framing "HOL-Library.Sublist"
begin

text \<open>
  The TCP/BTP bridge of the backend (\<open>spawn_tcp_btp_bridge\<close> in
  \<^verbatim>\<open>backend/src/lib.rs\<close>): the sender task, which chunks every QL record and writes one
  frame per chunk, and the receiver task, which reads frames, decodes chunks, reassembles
  records and hands them to the runtime, with the counters both keep.
\<close>

section \<open>The sender task\<close>

text \<open>A TCP write half: whether all bytes were written, and its next state.\<close>

type_synonym 'w writer = "'w \<Rightarrow> bytes \<Rightarrow> bool \<times> 'w"

record tx_counters =
  tx_records :: nat
  tx_frames :: nat

datatype tx_end = Channel_Closed | Write_Error

text \<open>The loop over the chunks of one record: length first, then the chunk.\<close>

fun tx_chunks :: "'w writer \<Rightarrow> bytes list \<Rightarrow> tx_counters \<Rightarrow> 'w \<Rightarrow> bool \<times> tx_counters \<times> 'w" where
  "tx_chunks wr [] k w = (True, k, w)"
| "tx_chunks wr (c # cs) k w =
     (case wr w (be32 (word_of_nat (length c))) of
        (False, w1) \<Rightarrow> (False, k, w1)
      | (True, w1) \<Rightarrow>
          (case wr w1 c of
             (False, w2) \<Rightarrow> (False, k, w2)
           | (True, w2) \<Rightarrow> tx_chunks wr cs (k\<lparr>tx_frames := tx_frames k + 1\<rparr>) w2))"

fun bridge_tx ::
    "('c, 'd) btp \<Rightarrow> 'w writer \<Rightarrow> bytes list \<Rightarrow> tx_counters \<Rightarrow> 'w \<Rightarrow> tx_end \<times> tx_counters \<times> 'w" where
  "bridge_tx lib wr [] k w = (Channel_Closed, k, w)"
| "bridge_tx lib wr (record # rs) k w =
     (case tx_chunks wr (chunk lib record) (k\<lparr>tx_records := tx_records k + 1\<rparr>) w of
        (False, k', w') \<Rightarrow> (Write_Error, k', w')
      | (True, k', w') \<Rightarrow> bridge_tx lib wr rs k' w')"

definition tx_start :: tx_counters where
  "tx_start = \<lparr>tx_records = 0, tx_frames = 0\<rparr>"

section \<open>The receiver task\<close>

record 'd bridge_state =
  dechunker :: 'd
  rx_frames :: nat
  rx_decoded :: nat
  rx_errs :: nat
  rx_records :: nat
  rx_delivered :: "bytes list"

datatype rx_end = Peer_Closed | Truncated_Frame | Receiver_Gone

definition bridge_rx_start :: "('c, 'd) btp \<Rightarrow> 'd bridge_state" where
  "bridge_rx_start lib = \<lparr>dechunker = new_dechunker lib, rx_frames = 0, rx_decoded = 0, rx_errs = 0,
     rx_records = 0, rx_delivered = []\<rparr>"

text \<open>One frame off the stream: the two \<open>read_exact\<close> calls end the task differently.\<close>

definition read_frame :: "bytes \<Rightarrow> (rx_end, bytes \<times> bytes) result" where
  "read_frame s =
     (case read_exact 4 s of
        None \<Rightarrow> Inl Peer_Closed
      | Some (len_buf, s1) \<Rightarrow>
          (case read_exact (unat (from_be32 (len_buf ! 0) (len_buf ! 1) (len_buf ! 2) (len_buf ! 3))) s1 of
             None \<Rightarrow> Inl Truncated_Frame
           | Some (payload, s2) \<Rightarrow> Inr (payload, s2)))"

text \<open>
  What the task does with one payload.  \<open>accepts n\<close> says whether the runtime still takes the
  \<open>n\<close>-th record; \<open>False\<close> ends the task.
\<close>

definition handle_frame ::
    "('c, 'd) btp \<Rightarrow> (nat \<Rightarrow> bool) \<Rightarrow> bytes \<Rightarrow> 'd bridge_state \<Rightarrow> bool \<times> 'd bridge_state" where
  "handle_frame lib accepts payload st =
     (let st = st\<lparr>rx_frames := rx_frames st + 1\<rparr> in
      case decode_chunk lib payload of
        None \<Rightarrow> (True, st\<lparr>rx_errs := rx_errs st + 1\<rparr>)
      | Some c \<Rightarrow>
          (let st = st\<lparr>rx_decoded := rx_decoded st + 1\<rparr> in
           case insert_chunk lib (dechunker st) c of
             (None, d') \<Rightarrow> (True, st\<lparr>dechunker := d'\<rparr>)
           | (Some record, d') \<Rightarrow>
               (let st = st\<lparr>dechunker := d', rx_records := rx_records st + 1\<rparr> in
                if accepts (rx_records st)
                then (True, st\<lparr>rx_delivered := rx_delivered st @ [record]\<rparr>)
                else (False, st))))"

lemma read_frame_shrinks: "read_frame s = Inr (p, s') \<Longrightarrow> length s' < length s"
  by (auto simp: read_frame_def read_exact_Some split: option.splits)

function bridge_rx ::
    "('c, 'd) btp \<Rightarrow> (nat \<Rightarrow> bool) \<Rightarrow> 'd bridge_state \<Rightarrow> bytes \<Rightarrow> rx_end \<times> 'd bridge_state" where
  "bridge_rx lib accepts st s =
     (case read_frame s of
        Inl e \<Rightarrow> (e, st)
      | Inr (payload, s') \<Rightarrow>
          (case handle_frame lib accepts payload st of
             (False, st') \<Rightarrow> (Receiver_Gone, st')
           | (True, st') \<Rightarrow> bridge_rx lib accepts st' s'))"
  by pat_completeness auto
termination
  by (relation "measure (\<lambda>(lib, accepts, st, s). length s)") (auto simp: read_frame_shrinks)

declare bridge_rx.simps [simp del]

section \<open>The sender writes frames\<close>

lemma tx_chunks_buffer:
  "tx_chunks (\<lambda>w b. (True, w @ b)) cs k w =
     (True, k\<lparr>tx_frames := tx_frames k + length cs\<rparr>, w @ concat (map frame_of cs))"
  by (induction cs arbitrary: k w) (simp_all add: frame_of_def)

lemma bridge_tx_buffer:
  "bridge_tx lib (\<lambda>w b. (True, w @ b)) rs k w =
     (Channel_Closed,
      k\<lparr>tx_records := tx_records k + length rs,
        tx_frames := tx_frames k + length (concat (map (chunk lib) rs))\<rparr>,
      w @ concat (map frame_of (concat (map (chunk lib) rs))))"
  by (induction rs arbitrary: k w) (simp_all add: tx_chunks_buffer)

section \<open>The receiver peels frames\<close>

lemma read_frame_peel: "(\<exists>e. read_frame s = Inl e) \<longleftrightarrow> peel_frame s = None"
  "read_frame s = Inr (p, r) \<longleftrightarrow> peel_frame s = Some (p, r)"
  by (auto simp: read_frame_def peel_frame_def frame_len_def bind_eq_Some_conv split: option.splits)

text \<open>What one payload does to the state, when the runtime is there.\<close>

lemma handle_frame_feed:
  assumes "\<And>n. accepts n"
  obtains st' where "handle_frame lib accepts p st = (True, st')"
    "rx_delivered st' = rx_delivered st @ fst (feed lib (dechunker st) [p])"
    "dechunker st' = snd (feed lib (dechunker st) [p])"
    "rx_frames st' = rx_frames st + 1"
    "rx_decoded st' + rx_errs st' = rx_decoded st + rx_errs st + 1"
    "rx_records st' = rx_records st + length (fst (feed lib (dechunker st) [p]))"
proof (cases "decode_chunk lib p")
  case None
  then show thesis
    by (intro that [of "snd (handle_frame lib accepts p st)"]) (simp_all add: handle_frame_def Let_def)
next
  case (Some c)
  obtain out d' where "insert_chunk lib (dechunker st) c = (out, d')" by force
  with Some assms show thesis
    by (cases out; intro that [of "snd (handle_frame lib accepts p st)"])
      (simp_all add: handle_frame_def Let_def)
qed

definition rx_summary :: "('c, 'd) btp \<Rightarrow> bytes list \<Rightarrow> 'd bridge_state \<Rightarrow> 'd bridge_state \<Rightarrow> bool" where
  "rx_summary lib ps st st' \<longleftrightarrow>
     rx_delivered st' = rx_delivered st @ fst (feed lib (dechunker st) ps)
     \<and> dechunker st' = snd (feed lib (dechunker st) ps)
     \<and> rx_frames st' = rx_frames st + length ps
     \<and> rx_decoded st' + rx_errs st' = rx_decoded st + rx_errs st + length ps
     \<and> rx_records st' = rx_records st + length (fst (feed lib (dechunker st) ps))"

lemma rx_summary_Cons:
  assumes "rx_summary lib [p] st st1" "rx_summary lib ps st1 st2"
  shows "rx_summary lib (p # ps) st st2"
  using assms feed_append [of lib "dechunker st" "[p]" ps]
  by (auto simp: rx_summary_def split: prod.splits)

lemma bridge_rx_frames:
  assumes "\<And>n. accepts n"
  shows "\<exists>st'. bridge_rx lib accepts st s =
      (if length (snd (decode_all peel_frame s)) < 4 then Peer_Closed else Truncated_Frame, st')
    \<and> rx_summary lib (fst (decode_all peel_frame s)) st st'"
  using assms
proof (induction lib accepts st s rule: bridge_rx.induct)
  case (1 lib accepts st s)
  show ?case
  proof (cases "read_frame s")
    case (Inl e)
    then have "e = (if length s < 4 then Peer_Closed else Truncated_Frame)"
      by (auto simp: read_frame_def read_exact_def split: if_splits option.splits)
    moreover have "decode_all peel_frame s = ([], s)"
      using Inl read_frame_peel(1) by (blast intro: decode_all_None)
    ultimately show ?thesis
      using Inl by (subst bridge_rx.simps) (simp add: rx_summary_def)
  next
    case (Inr ps)
    then obtain p r where pr: "read_frame s = Inr (p, r)" by (cases ps) simp
    then have peel: "peel_frame s = Some (p, r)" using read_frame_peel(2) by blast
    obtain st1 where h: "handle_frame lib accepts p st = (True, st1)" and one: "rx_summary lib [p] st st1"
      using handle_frame_feed [of accepts lib p st] "1.prems" unfolding rx_summary_def
      by (metis One_nat_def length_Cons list.size(3))
    from "1.IH" [OF pr refl h [symmetric] refl "1.prems"] obtain st2 where
        rec: "bridge_rx lib accepts st1 r =
          (if length (snd (decode_all peel_frame r)) < 4 then Peer_Closed else Truncated_Frame, st2)"
      and rest: "rx_summary lib (fst (decode_all peel_frame r)) st1 st2" by blast
    have "bridge_rx lib accepts st s = bridge_rx lib accepts st1 r"
      using pr h by (subst bridge_rx.simps) simp
    with rec rx_summary_Cons [OF one rest] show ?thesis
      by (simp add: frames.decode_all_step [OF peel])
  qed
qed

section \<open>Properties\<close>

text \<open>C2. The bridge is transparent: the receiver task, reading what the sender task of a peer wrote
  for any list of records the chunking library can carry, delivers exactly those records, in
  order, reads as many frames as were written, and ends only because the peer closed the
  connection.\<close>

theorem bridge_end_to_end:
  assumes "btp_law lib ready fits" "list_all fits records" "\<And>n. accepts n"
  shows "\<exists>k w st. bridge_tx lib (\<lambda>w b. (True, w @ b)) records tx_start [] = (Channel_Closed, k, w)
    \<and> bridge_rx lib accepts (bridge_rx_start lib) w = (Peer_Closed, st)
    \<and> rx_delivered st = records
    \<and> tx_records k = length records \<and> rx_records st = length records
    \<and> rx_frames st = tx_frames k"
proof -
  let ?ps = "concat (map (chunk lib) records)"
  have ready: "ready (dechunker (bridge_rx_start lib))"
    using assms(1) by (simp add: btp_law_def bridge_rx_start_def)
  have peel: "decode_all peel_frame (concat (map frame_of ?ps)) = (?ps, [])"
    by (rule frames.decode_all_encoded) (rule btp_law_frames_ok [OF assms(1,2)])
  obtain st where rx: "bridge_rx lib accepts (bridge_rx_start lib) (concat (map frame_of ?ps)) = (Peer_Closed, st)"
    and sum: "rx_summary lib ?ps (bridge_rx_start lib) st"
    using bridge_rx_frames [where accepts = accepts and lib = lib and st = "bridge_rx_start lib"
        and s = "concat (map frame_of ?ps)", OF assms(3)]
    by (auto simp: peel)
  have "fst (feed lib (dechunker (bridge_rx_start lib)) ?ps) = records"
    using feed_messages [OF assms(1) ready assms(2)] by blast
  with rx sum show ?thesis
    by (auto simp: bridge_tx_buffer rx_summary_def bridge_rx_start_def tx_start_def)
qed

theorem bridge_end_to_end_witness:
  "\<exists>k w st. bridge_tx halves (\<lambda>w b. (True, w @ b)) [[1, 2, 3], [], [4]] tx_start [] = (Channel_Closed, k, w)
    \<and> bridge_rx halves (\<lambda>_. True) (bridge_rx_start halves) w = (Peer_Closed, st)
    \<and> rx_delivered st = [[1, 2, 3], [], [4]]"
  using bridge_end_to_end [OF halves_law, of "[[1, 2, 3], [], [4]]" "\<lambda>_. True"] by auto

text \<open>C12. On any byte stream whatever the receiver task is the reassembly of the frames the stream
  holds: it delivers what the dechunker yields for the frame payloads in order, skips undecodable
  chunks, its counters add up (every frame is either decoded or an error), and it tells a stream
  cut inside a frame's payload from one that ended before a frame's length was complete.\<close>

theorem bridge_rx_reassembles:
  assumes "\<And>n. accepts n"
  shows "\<exists>st. bridge_rx lib accepts (bridge_rx_start lib) s =
      (if length (snd (decode_all peel_frame s)) < 4 then Peer_Closed else Truncated_Frame, st)
    \<and> rx_delivered st = fst (feed lib (new_dechunker lib) (fst (decode_all peel_frame s)))
    \<and> rx_frames st = length (fst (decode_all peel_frame s))
    \<and> rx_decoded st + rx_errs st = rx_frames st
    \<and> rx_records st = length (rx_delivered st)"
  using bridge_rx_frames [where accepts = accepts and lib = lib and st = "bridge_rx_start lib" and s = s,
      OF assms]
  by (auto simp: rx_summary_def bridge_rx_start_def)

theorem bridge_rx_reassembles_witness:
  "\<exists>st. bridge_rx halves (\<lambda>_. True) (bridge_rx_start halves) ([0, 0, 0, 2, 1, 7] @ [0, 0, 0, 9, 1]) =
      (Truncated_Frame, st) \<and> rx_delivered st = [[7]]"
proof -
  have f: "peel_frame ([0, 0, 0, 2, 1, 7] @ [0, 0, 0, 9, 1]) = Some ([1, 7], [0, 0, 0, 9, 1])"
    "peel_frame [0, 0, 0, 9, 1] = None"
    by (simp_all add: peel_frame_def read_exact_def frame_len_def from_be32_def)
  have "decode_all peel_frame ([0, 0, 0, 2, 1, 7] @ [0, 0, 0, 9, 1]) = ([[1, 7]], [0, 0, 0, 9, 1])"
    by (subst frames.decode_all_step [OF f(1)]) (simp add: decode_all_None [where dec = peel_frame, OF f(2)])
  then show ?thesis
    using bridge_rx_reassembles [of "\<lambda>_. True" halves "[0, 0, 0, 2, 1, 7] @ [0, 0, 0, 9, 1]"]
    by (auto simp: halves_def)
qed

text \<open>
  A TCP write half as the sender sees it: a successful write appends all bytes to what was sent,
  a failed one at most some of them.
\<close>

definition cuts :: "bytes writer \<Rightarrow> bool" where
  "cuts wr \<longleftrightarrow> (\<forall>w b. prefix w (snd (wr w b)) \<and> prefix (snd (wr w b)) (w @ b)
     \<and> (fst (wr w b) \<longrightarrow> snd (wr w b) = w @ b))"

lemma cutsD:
  assumes "cuts wr" "wr w b = (ok, w')"
  shows "prefix w w'" "prefix w' (w @ b)" "ok \<Longrightarrow> w' = w @ b"
  using assms unfolding cuts_def by (metis fst_conv snd_conv)+

lemma prefix_write:
  assumes "prefix w' (w @ b)"
  shows "prefix w' (w @ b @ c)"
  using assms by (metis append_assoc prefix_prefix)

lemma tx_chunks_prefix:
  assumes "cuts wr" "tx_chunks wr cs k w = (ok, k', w')"
  shows "prefix w' (w @ concat (map frame_of cs)) \<and> (ok \<longrightarrow> w' = w @ concat (map frame_of cs))"
  using assms(2)
proof (induction cs arbitrary: k w)
  case (Cons c cs)
  let ?len = "be32 (word_of_nat (length c))" and ?rest = "concat (map frame_of cs)"
  have full: "w @ concat (map frame_of (c # cs)) = w @ ?len @ c @ ?rest"
    by (simp add: frame_of_def)
  obtain ok1 w1 where 1: "wr w ?len = (ok1, w1)" by force
  obtain ok2 w2 where 2: "wr w1 c = (ok2, w2)" by force
  consider "\<not> ok1" | "ok1" "\<not> ok2" | "ok1" "ok2" by blast
  then show ?case
  proof cases
    case 1
    with \<open>wr w ?len = (ok1, w1)\<close> Cons.prems have "w' = w1" "\<not> ok" by auto
    with cutsD(2) [OF assms(1) \<open>wr w ?len = (ok1, w1)\<close>] show ?thesis
      unfolding full by (simp add: prefix_write)
  next
    case 2
    with 1 \<open>wr w1 c = (ok2, w2)\<close> Cons.prems have "w' = w2" "\<not> ok" by auto
    moreover have "w1 = w @ ?len" using cutsD(3) [OF assms(1) 1] \<open>ok1\<close> by simp
    ultimately show ?thesis
      using cutsD(2) [OF assms(1) \<open>wr w1 c = (ok2, w2)\<close>] prefix_write [of w' w1 c ?rest]
      unfolding full by simp
  next
    case 3
    then have "w1 = w @ ?len" "w2 = w1 @ c"
      using cutsD(3) [OF assms(1) 1] cutsD(3) [OF assms(1) 2] by simp_all
    moreover have "tx_chunks wr cs (k\<lparr>tx_frames := tx_frames k + 1\<rparr>) w2 = (ok, k', w')"
      using 1 2 3 Cons.prems by simp
    ultimately show ?thesis
      using Cons.IH unfolding full by fastforce
  qed
qed simp

lemma bridge_tx_prefix_lemma:
  assumes "cuts wr" "bridge_tx lib wr rs k w = (e, k', w')"
  shows "prefix w' (w @ concat (map frame_of (concat (map (chunk lib) rs))))
    \<and> (e = Channel_Closed \<longrightarrow> w' = w @ concat (map frame_of (concat (map (chunk lib) rs))))"
  using assms(2)
proof (induction rs arbitrary: k w)
  case (Cons r rs)
  obtain ok k1 w1 where
    1: "tx_chunks wr (chunk lib r) (k\<lparr>tx_records := tx_records k + 1\<rparr>) w = (ok, k1, w1)"
    by (metis prod.collapse)
  note p = tx_chunks_prefix [OF assms(1) 1]
  show ?case
  proof (cases ok)
    case True
    with p Cons.IH [of k1 w1] Cons.prems 1 show ?thesis by simp
  next
    case False
    with Cons.prems 1 have "w' = w1" "e = Write_Error" by auto
    with p prefix_write [of w1 w "concat (map frame_of (chunk lib r))"] show ?thesis by simp
  qed
qed simp

text \<open>C29. A link failure cuts the stream at one point and nowhere else: for any write half whose failed
  writes leave at most a part of their bytes behind, what the sender task has put on the wire when
  it ends is a prefix of the frames of its records in order, and all of them unless a write
  failed.\<close>

theorem bridge_tx_prefix:
  assumes "cuts wr" "bridge_tx lib wr records tx_start [] = (e, k, w)"
  shows "prefix w (concat (map frame_of (concat (map (chunk lib) records))))
    \<and> (e = Channel_Closed \<longrightarrow> w = concat (map frame_of (concat (map (chunk lib) records))))"
  using bridge_tx_prefix_lemma [OF assms] by simp

text \<open>A link that dies after six bytes.\<close>

definition short_link :: "bytes writer" where
  "short_link w b = (length (w @ b) \<le> 6, w @ take (6 - length w) b)"

theorem bridge_tx_prefix_witness:
  "\<exists>e k w. bridge_tx halves short_link [[1, 2, 3]] tx_start [] = (e, k, w) \<and> e = Write_Error
    \<and> prefix w (concat (map frame_of (concat (map (chunk halves) [[1, 2, 3]]))))"
proof -
  have cuts: "cuts short_link"
    by (auto simp: cuts_def short_link_def prefix_def) (metis append_take_drop_id)
  obtain e k w where run: "bridge_tx halves short_link [[1, 2, 3]] tx_start [] = (e, k, w)"
    by (metis prod.collapse)
  then have "e = Write_Error"
    by (auto simp: halves_def short_link_def)
  with run bridge_tx_prefix [OF cuts run] show ?thesis by auto
qed

end
