(* ===== verification/V1_Client.thy ===== *)
theory V1_Client
  imports Framing Rust_Str
begin

text \<open>
  The QuantumLink v1 client (\<^verbatim>\<open>v1-client/src\<close>): the transport, which sends an envelope
  as length-prefixed \<open>btp\<close> chunks and blocks until one reassembles, the pairing session of
  \<open>main\<close> and the lookup of the device's XID document.  The operating system, \<open>btp\<close>, the
  GSTP library \<open>foundation_api\<close> and the \<open>hex\<close> crate are parameters.
\<close>

section \<open>The outside world\<close>

text \<open>A connected TCP stream and the clock.  A failed read or write is an I/O error.\<close>

record 'w os =
  write_all :: "'w \<Rightarrow> bytes \<Rightarrow> bool \<times> 'w"
  flush_all :: "'w \<Rightarrow> bool \<times> 'w"
  recv_exact :: "nat \<Rightarrow> 'w \<Rightarrow> bytes option \<times> 'w"
  utc_now :: "'w \<Rightarrow> int"

datatype v1_error =
    Io_Failed
  | Bad_Cbor
  | Bad_Envelope
  | Unseal_Failed
  | Xid_Required
  | Xid_Unreadable
  | Bad_Hex
  | Bad_Xid

record ('w, 'd) transport =
  t_stream :: 'w
  t_dechunker :: 'd

section \<open>Transport\<close>

definition sock_write :: "'w os \<Rightarrow> bytes \<Rightarrow> (v1_error, ('w, 'd) transport, unit) io" where
  "sock_write os b t = (case write_all os (t_stream t) b of
     (ok, w) \<Rightarrow> Some (if ok then Inr () else Inl Io_Failed, t\<lparr>t_stream := w\<rparr>))"

definition sock_flush :: "'w os \<Rightarrow> (v1_error, ('w, 'd) transport, unit) io" where
  "sock_flush os t = (case flush_all os (t_stream t) of
     (ok, w) \<Rightarrow> Some (if ok then Inr () else Inl Io_Failed, t\<lparr>t_stream := w\<rparr>))"

fun send_chunks :: "'w os \<Rightarrow> bytes list \<Rightarrow> (v1_error, ('w, 'd) transport, unit) io" where
  "send_chunks os [] = io_lift (Inr ())"
| "send_chunks os (c # cs) =
     io_then (sock_write os (be32 (word_of_nat (length c)))) (\<lambda>_.
     io_then (sock_write os c) (\<lambda>_.
     send_chunks os cs))"

definition send_envelope ::
    "('c, 'd) btp \<Rightarrow> 'w os \<Rightarrow> bytes \<Rightarrow> (v1_error, ('w, 'd) transport, unit) io" where
  "send_envelope lib os cbor =
     io_then (send_chunks os (chunk lib cbor)) (\<lambda>_. sock_flush os)"

text \<open>The receive loop.  A peer that never completes a message keeps it reading.\<close>

partial_function (option) recv_envelope ::
    "('c, 'd) btp \<Rightarrow> 'w os \<Rightarrow> ('w, 'd) transport \<Rightarrow> ((v1_error, bytes) result \<times> ('w, 'd) transport) option"
where
  "recv_envelope lib os t =
     (case recv_exact os 4 (t_stream t) of
        (None, w) \<Rightarrow> Some (Inl Io_Failed, t\<lparr>t_stream := w\<rparr>)
      | (Some len_buf, w) \<Rightarrow>
          (case recv_exact os (frame_len len_buf) w of
             (None, w') \<Rightarrow> Some (Inl Io_Failed, t\<lparr>t_stream := w'\<rparr>)
           | (Some payload, w') \<Rightarrow>
               (case decode_chunk lib payload of
                  None \<Rightarrow> recv_envelope lib os (t\<lparr>t_stream := w'\<rparr>)
                | Some c \<Rightarrow>
                    (case insert_chunk lib (t_dechunker t) c of
                       (Some envelope, d) \<Rightarrow> Some (Inr envelope, \<lparr>t_stream = w', t_dechunker = d\<rparr>)
                     | (None, d) \<Rightarrow> recv_envelope lib os \<lparr>t_stream = w', t_dechunker = d\<rparr>))))"

section \<open>The pairing session\<close>

text \<open>The QuantumLink messages the client names, and the rest.\<close>

datatype ('p, 'o) quantum_link_message =
    PairingRequest (xid_document: bytes) (device_name: string)
  | PairingResponse 'p
  | EnvoyStatus (status_version: string)
  | Other_Message 'o

record ('p, 'o, 'v) envoy_message =
  em_message :: "('p, 'o) quantum_link_message"
  em_timestamp :: u32
  em_protocol_version :: "'v option"

text \<open>
  \<open>foundation_api\<close>: identities, CBOR, envelopes, sealing, and unsealing with the replay
  check, which updates the cache.
\<close>

record ('k, 'x, 'b, 'e, 'a, 'p, 'o, 'v) gstp =
  generate_identity :: "'k \<times> 'x"
  xid_cbor :: "'x \<Rightarrow> bytes"
  parse_cbor :: "bytes \<Rightarrow> 'b option"
  xid_of_cbor :: "'b \<Rightarrow> 'x option"
  envelope_of_cbor :: "'b \<Rightarrow> 'e option"
  envelope_cbor :: "'e \<Rightarrow> bytes"
  seal :: "('p, 'o, 'v) envoy_message \<Rightarrow> 'k \<times> 'x \<Rightarrow> 'x \<Rightarrow> 'e"
  unseal :: "'e \<Rightarrow> 'k \<Rightarrow> 'a \<Rightarrow> ('p, 'o) quantum_link_message option \<times> 'a"
  empty_cache :: 'a
  protocol_version :: 'v

definition v1_seal ::
    "('k, 'x, 'b, 'e, 'a, 'p, 'o, 'v) gstp \<Rightarrow> int \<Rightarrow> 'k \<Rightarrow> 'x \<Rightarrow> 'x
       \<Rightarrow> ('p, 'o) quantum_link_message \<Rightarrow> bytes" where
  "v1_seal g now my_priv my_xid device_xid msg =
     envelope_cbor g (seal g
       \<lparr>em_message = msg, em_timestamp = word_of_int now, em_protocol_version = Some (protocol_version g)\<rparr>
       (my_priv, my_xid) device_xid)"

definition v1_send ::
    "('k, 'x, 'b, 'e, 'a, 'p, 'o, 'v) gstp \<Rightarrow> ('c, 'd) btp \<Rightarrow> 'w os
       \<Rightarrow> ('p, 'o) quantum_link_message \<Rightarrow> 'k \<Rightarrow> 'x \<Rightarrow> 'x \<Rightarrow> (v1_error, ('w, 'd) transport, unit) io" where
  "v1_send g lib os msg my_priv my_xid device_xid t =
     send_envelope lib os (v1_seal g (utc_now os (t_stream t)) my_priv my_xid device_xid msg) t"

definition open_envelope ::
    "('k, 'x, 'b, 'e, 'a, 'p, 'o, 'v) gstp \<Rightarrow> 'k \<Rightarrow> 'a \<Rightarrow> bytes
       \<Rightarrow> (v1_error, ('p, 'o) quantum_link_message) result \<times> 'a" where
  "open_envelope g my_priv replay cbor =
     (case parse_cbor g cbor of
        None \<Rightarrow> (Inl Bad_Cbor, replay)
      | Some b \<Rightarrow>
          (case envelope_of_cbor g b of
             None \<Rightarrow> (Inl Bad_Envelope, replay)
           | Some e \<Rightarrow>
               (case unseal g e my_priv replay of
                  (None, replay') \<Rightarrow> (Inl Unseal_Failed, replay')
                | (Some msg, replay') \<Rightarrow> (Inr msg, replay'))))"

definition envoy_status :: "('p, 'o) quantum_link_message" where
  "envoy_status = EnvoyStatus ''foundation-lab/0.1''"

partial_function (option) pairing_loop ::
    "('k, 'x, 'b, 'e, 'a, 'p, 'o, 'v) gstp \<Rightarrow> ('c, 'd) btp \<Rightarrow> 'w os \<Rightarrow> 'k \<Rightarrow> 'x \<Rightarrow> 'x \<Rightarrow> 'a
       \<Rightarrow> ('w, 'd) transport \<Rightarrow> ((v1_error, unit) result \<times> ('w, 'd) transport) option"
where
  "pairing_loop g lib os my_priv my_xid device_xid replay t =
     (case recv_envelope lib os t of
        None \<Rightarrow> None
      | Some (Inl e, t') \<Rightarrow> Some (Inl e, t')
      | Some (Inr cbor, t') \<Rightarrow>
          (case open_envelope g my_priv replay cbor of
             (Inl e, _) \<Rightarrow> Some (Inl e, t')
           | (Inr (PairingResponse resp), _) \<Rightarrow>
               v1_send g lib os envoy_status my_priv my_xid device_xid t'
           | (Inr _, replay') \<Rightarrow> pairing_loop g lib os my_priv my_xid device_xid replay' t'))"

text \<open>\<open>main\<close> once the device's XID is known and the stream connected.\<close>

definition v1_session ::
    "('k, 'x, 'b, 'e, 'a, 'p, 'o, 'v) gstp \<Rightarrow> ('c, 'd) btp \<Rightarrow> 'w os \<Rightarrow> 'x
       \<Rightarrow> (v1_error, ('w, 'd) transport, unit) io" where
  "v1_session g lib os device_xid =
     (case generate_identity g of (my_priv, my_xid) \<Rightarrow>
        io_then (v1_send g lib os (PairingRequest (xid_cbor g my_xid) ''foundation-lab v1'')
                   my_priv my_xid device_xid) (\<lambda>_.
        pairing_loop g lib os my_priv my_xid device_xid (empty_cache g)))"

section \<open>The device's XID\<close>

definition device_xid_path :: "string list \<Rightarrow> string option" where
  "device_xid_path args = get_at (dropWhile (\<lambda>a. a \<noteq> ''--device-xid'') args) 1"

definition load_device_xid ::
    "('k, 'x, 'b, 'e, 'a, 'p, 'o, 'v) gstp \<Rightarrow> (string \<Rightarrow> bytes option) \<Rightarrow> (string \<Rightarrow> string option)
       \<Rightarrow> string option \<Rightarrow> string list \<Rightarrow> (v1_error, 'x) result" where
  "load_device_xid g hex read_file env_var args =
     and_then (case env_var of
        Some h \<Rightarrow> Inr h
      | None \<Rightarrow>
          (case device_xid_path args of
             Some path \<Rightarrow> ok_or (read_file path) Xid_Unreadable
           | None \<Rightarrow> Inl Xid_Required)) (\<lambda>hex_str.
     and_then (ok_or (hex (str_trim hex_str)) Bad_Hex) (\<lambda>b.
     and_then (ok_or (parse_cbor g b) Bad_Cbor) (\<lambda>cbor.
     ok_or (xid_of_cbor g cbor) Bad_Xid)))"

text \<open>\<open>main\<close>: the XID, then the connection, then the session.\<close>

definition v1_main ::
    "('k, 'x, 'b, 'e, 'a, 'p, 'o, 'v) gstp \<Rightarrow> ('c, 'd) btp \<Rightarrow> 'w os \<Rightarrow> (string \<Rightarrow> bytes option)
       \<Rightarrow> (string \<Rightarrow> string option) \<Rightarrow> string option \<Rightarrow> string list \<Rightarrow> (string \<Rightarrow> 'w option)
       \<Rightarrow> string option \<Rightarrow> ((v1_error, unit) result \<times> 'w option) option" where
  "v1_main g lib os hex read_file env_xid args connect env_addr =
     (case load_device_xid g hex read_file env_xid args of
        Inl e \<Rightarrow> Some (Inl e, None)
      | Inr device_xid \<Rightarrow>
          (case connect (case env_addr of Some a \<Rightarrow> a | None \<Rightarrow> ''127.0.0.1:8765'') of
             None \<Rightarrow> Some (Inl Io_Failed, None)
           | Some w \<Rightarrow>
               map_option (\<lambda>(r, t). (r, Some (t_stream t)))
                 (v1_session g lib os device_xid \<lparr>t_stream = w, t_dechunker = new_dechunker lib\<rparr>)))"

section \<open>A connected stream\<close>

text \<open>
  The stream the theorems speak about: the bytes the device sends before it closes the
  connection, the bytes written to it so far, and a clock that stands still.
\<close>

record wire =
  wire_in :: bytes
  wire_out :: bytes

definition buffer_os :: "int \<Rightarrow> wire os" where
  "buffer_os now = \<lparr>
     write_all = (\<lambda>w b. (True, w\<lparr>wire_out := wire_out w @ b\<rparr>)),
     flush_all = (\<lambda>w. (True, w)),
     recv_exact = (\<lambda>n w. case read_exact n (wire_in w) of
        None \<Rightarrow> (None, w\<lparr>wire_in := []\<rparr>)
      | Some (b, rest) \<Rightarrow> (Some b, w\<lparr>wire_in := rest\<rparr>)),
     utc_now = (\<lambda>_. now)\<rparr>"

text \<open>The messages a transport will reassemble from what is still to arrive.\<close>

definition inbox :: "('c, 'd) btp \<Rightarrow> (wire, 'd) transport \<Rightarrow> bytes list" where
  "inbox lib t = fst (feed lib (t_dechunker t) (fst (decode_all peel_frame (wire_in (t_stream t)))))"

abbreviation sent :: "(wire, 'd) transport \<Rightarrow> bytes" where
  "sent t \<equiv> wire_out (t_stream t)"

lemma buffer_os_simps [simp]:
  "write_all (buffer_os now) w b = (True, w\<lparr>wire_out := wire_out w @ b\<rparr>)"
  "flush_all (buffer_os now) w = (True, w)"
  "recv_exact (buffer_os now) n w =
     (case read_exact n (wire_in w) of
        None \<Rightarrow> (None, w\<lparr>wire_in := []\<rparr>)
      | Some (b, rest) \<Rightarrow> (Some b, w\<lparr>wire_in := rest\<rparr>))"
  "utc_now (buffer_os now) w = now"
  by (simp_all add: buffer_os_def)

lemma send_chunks_buffer:
  "send_chunks (buffer_os now) cs t =
     Some (Inr (), t\<lparr>t_stream := (t_stream t)\<lparr>wire_out := sent t @ concat (map frame_of cs)\<rparr>\<rparr>)"
  by (induction cs arbitrary: t) (simp_all add: sock_write_def io_then_def frame_of_def)

lemma send_envelope_buffer:
  "send_envelope lib (buffer_os now) m t =
     Some (Inr (), t\<lparr>t_stream := (t_stream t)\<lparr>wire_out := sent t @ concat (map frame_of (chunk lib m))\<rparr>\<rparr>)"
  by (simp add: send_envelope_def io_then_def send_chunks_buffer sock_flush_def)

lemma inbox_out [simp]: "inbox lib (t\<lparr>t_stream := (t_stream t)\<lparr>wire_out := b\<rparr>\<rparr>) = inbox lib t"
  by (simp add: inbox_def)

text \<open>One turn of the receive loop consumes one frame.\<close>

lemma recv_envelope_None:
  assumes "peel_frame (wire_in (t_stream t)) = None"
  shows "\<exists>t'. recv_envelope lib (buffer_os now) t = Some (Inl Io_Failed, t') \<and> sent t' = sent t"
  using assms
  by (subst recv_envelope.simps) (auto simp: peel_frame_def split: option.splits prod.splits)

lemma recv_envelope_Some:
  assumes "peel_frame (wire_in (t_stream t)) = Some (p, r)"
  shows "recv_envelope lib (buffer_os now) t =
    (let t' = t\<lparr>t_stream := (t_stream t)\<lparr>wire_in := r\<rparr>\<rparr> in
     case decode_chunk lib p of
       None \<Rightarrow> recv_envelope lib (buffer_os now) t'
     | Some c \<Rightarrow>
         (case insert_chunk lib (t_dechunker t) c of
            (Some e, d) \<Rightarrow> Some (Inr e, t'\<lparr>t_dechunker := d\<rparr>)
          | (None, d) \<Rightarrow> recv_envelope lib (buffer_os now) (t'\<lparr>t_dechunker := d\<rparr>)))"
proof -
  obtain s o' d where t: "t = \<lparr>t_stream = \<lparr>wire_in = s, wire_out = o'\<rparr>, t_dechunker = d\<rparr>"
    by (metis transport.surjective wire.surjective old.unit.exhaust)
  obtain lb s1 where 1: "read_exact 4 s = Some (lb, s1)" and 2: "read_exact (frame_len lb) s1 = Some (p, r)"
    using assms by (auto simp: t peel_frame_def bind_eq_Some_conv)
  have r1: "recv_exact (buffer_os now) 4 (t_stream t) = (Some lb, \<lparr>wire_in = s1, wire_out = o'\<rparr>)"
    and r2: "recv_exact (buffer_os now) (frame_len lb) \<lparr>wire_in = s1, wire_out = o'\<rparr> =
      (Some p, \<lparr>wire_in = r, wire_out = o'\<rparr>)"
    using 1 2 by (simp_all add: t)
  show ?thesis
    by (subst recv_envelope.simps, unfold r1 option.case prod.case, unfold r2 option.case prod.case)
      (simp add: t Let_def split: option.split prod.split)
qed

lemma inbox_step:
  assumes "peel_frame (wire_in (t_stream t)) = Some (p, r)"
  shows "inbox lib t =
    (let t' = t\<lparr>t_stream := (t_stream t)\<lparr>wire_in := r\<rparr>\<rparr> in
     case decode_chunk lib p of
       None \<Rightarrow> inbox lib t'
     | Some c \<Rightarrow>
         (case insert_chunk lib (t_dechunker t) c of
            (Some e, d) \<Rightarrow> e # inbox lib (t'\<lparr>t_dechunker := d\<rparr>)
          | (None, d) \<Rightarrow> inbox lib (t'\<lparr>t_dechunker := d\<rparr>)))"
  by (auto simp: inbox_def frames.decode_all_step [OF assms] Let_def split: option.split prod.split)

text \<open>On a stream that ends, receiving is taking the next message off the inbox.\<close>

lemma recv_envelope_inbox:
  "\<exists>t'. sent t' = sent t \<and>
    (case inbox lib t of
       [] \<Rightarrow> recv_envelope lib (buffer_os now) t = Some (Inl Io_Failed, t')
     | m # ms \<Rightarrow> recv_envelope lib (buffer_os now) t = Some (Inr m, t') \<and> inbox lib t' = ms)"
proof (induction t rule: measure_induct_rule [of "\<lambda>t. length (wire_in (t_stream t))"])
  case (less t)
  show ?case
  proof (cases "peel_frame (wire_in (t_stream t))")
    case None
    then have "inbox lib t = []" by (simp add: inbox_def decode_all_None)
    with recv_envelope_None [OF None] show ?thesis by fastforce
  next
    case (Some pr)
    then obtain p r where pr: "peel_frame (wire_in (t_stream t)) = Some (p, r)" by (cases pr) auto
    let ?t = "t\<lparr>t_stream := (t_stream t)\<lparr>wire_in := r\<rparr>\<rparr>"
    note turn = recv_envelope_Some [OF pr, of lib now] inbox_step [OF pr, of lib]
    have "length r < length (wire_in (t_stream t))" by (rule peel_frame_shrinks [OF pr])
    then have IH: "\<exists>t''. sent t'' = sent t' \<and>
        (case inbox lib t' of
           [] \<Rightarrow> recv_envelope lib (buffer_os now) t' = Some (Inl Io_Failed, t'')
         | m # ms \<Rightarrow> recv_envelope lib (buffer_os now) t' = Some (Inr m, t'') \<and> inbox lib t'' = ms)"
      if "wire_in (t_stream t') = r" for t'
      using less [of t'] that by simp
    show ?thesis
    proof (cases "decode_chunk lib p")
      case None
      with turn have "recv_envelope lib (buffer_os now) t = recv_envelope lib (buffer_os now) ?t"
        "inbox lib t = inbox lib ?t" by (simp_all add: Let_def)
      with IH [of ?t] show ?thesis by (simp cong: list.case_cong)
    next
      case (Some c)
      obtain out d where ins: "insert_chunk lib (t_dechunker t) c = (out, d)" by force
      show ?thesis
      proof (cases out)
        case None
        let ?u = "?t\<lparr>t_dechunker := d\<rparr>"
        from None Some ins turn
        have "recv_envelope lib (buffer_os now) t = recv_envelope lib (buffer_os now) ?u"
          "inbox lib t = inbox lib ?u" by (simp_all add: Let_def)
        with IH [of ?u] show ?thesis by (simp cong: list.case_cong)
      next
        case (Some m)
        with \<open>decode_chunk lib p = Some c\<close> ins turn show ?thesis
          by (intro exI [of _ "?t\<lparr>t_dechunker := d\<rparr>"]) (simp add: Let_def)
      qed
    qed
  qed
qed

section \<open>Sending and receiving\<close>

text \<open>Several messages sent, and several received, one call each.\<close>

fun send_many :: "('c, 'd) btp \<Rightarrow> 'w os \<Rightarrow> bytes list \<Rightarrow> (v1_error, ('w, 'd) transport, unit) io" where
  "send_many lib os [] = io_lift (Inr ())"
| "send_many lib os (m # ms) = io_then (send_envelope lib os m) (\<lambda>_. send_many lib os ms)"

fun recv_many :: "('c, 'd) btp \<Rightarrow> 'w os \<Rightarrow> nat \<Rightarrow> (v1_error, ('w, 'd) transport, bytes list) io" where
  "recv_many lib os 0 = io_lift (Inr [])"
| "recv_many lib os (Suc n) =
     io_then (recv_envelope lib os) (\<lambda>m.
     io_then (recv_many lib os n) (\<lambda>ms. io_lift (Inr (m # ms))))"

lemma send_many_buffer:
  "\<exists>t'. send_many lib (buffer_os now) ms t = Some (Inr (), t')
    \<and> sent t' = sent t @ concat (map frame_of (concat (map (chunk lib) ms)))"
proof (induction ms arbitrary: t)
  case (Cons m ms)
  from Cons [of "t\<lparr>t_stream := (t_stream t)\<lparr>wire_out := sent t @ concat (map frame_of (chunk lib m))\<rparr>\<rparr>"]
  show ?case by (simp add: io_then_def send_envelope_buffer)
qed simp

lemma recv_many_inbox:
  "inbox lib t = ms @ rest \<Longrightarrow>
   \<exists>t'. recv_many lib (buffer_os now) (length ms) t = Some (Inr ms, t') \<and> inbox lib t' = rest"
proof (induction ms arbitrary: t)
  case (Cons m ms)
  with recv_envelope_inbox [of t lib now] obtain t' where
    "recv_envelope lib (buffer_os now) t = Some (Inr m, t')" "inbox lib t' = ms @ rest" by auto
  with Cons.IH [of t'] show ?case by (auto simp: io_then_def)
qed simp

lemma inbox_of_messages:
  assumes "btp_law lib ready fits" "list_all fits ms"
    "wire_in (t_stream t) = concat (map frame_of (concat (map (chunk lib) ms)))"
    "t_dechunker t = new_dechunker lib"
  shows "inbox lib t = ms"
proof -
  have "decode_all peel_frame (wire_in (t_stream t)) = (concat (map (chunk lib) ms), [])"
    unfolding assms(3) by (rule frames.decode_all_encoded) (rule btp_law_frames_ok [OF assms(1,2)])
  moreover have "ready (new_dechunker lib)" using assms(1) by (simp add: btp_law_def)
  ultimately show ?thesis
    using feed_messages [OF assms(1) _ assms(2)] by (simp add: inbox_def assms(4))
qed

text \<open>The transport is a faithful channel: envelopes sent with \<open>send_envelope\<close> are returned
  by as many calls of \<open>recv_envelope\<close> on the other side, in order and unchanged, for every
  envelope the chunking library can carry; the call after the last one fails with an I/O error
  when the peer has closed the stream, and never returns a partial envelope.\<close>

theorem v1_transport_roundtrip:
  assumes "btp_law lib ready fits" "list_all fits ms"
  shows "\<exists>a b c. send_many lib (buffer_os now) ms
        \<lparr>t_stream = \<lparr>wire_in = [], wire_out = []\<rparr>, t_dechunker = new_dechunker lib\<rparr> = Some (Inr (), a)
    \<and> recv_many lib (buffer_os now) (length ms)
        \<lparr>t_stream = \<lparr>wire_in = sent a, wire_out = []\<rparr>, t_dechunker = new_dechunker lib\<rparr> = Some (Inr ms, b)
    \<and> recv_envelope lib (buffer_os now) b = Some (Inl Io_Failed, c)"
proof -
  let ?start = "\<lambda>s. \<lparr>t_stream = \<lparr>wire_in = s, wire_out = []\<rparr>, t_dechunker = new_dechunker lib\<rparr>"
  obtain a where a: "send_many lib (buffer_os now) ms (?start []) = Some (Inr (), a)"
    "sent a = concat (map frame_of (concat (map (chunk lib) ms)))"
    using send_many_buffer [of lib now ms "?start []"] by auto
  then have "inbox lib (?start (sent a)) = ms @ []"
    using inbox_of_messages [OF assms, of "?start (sent a)"] by simp
  from recv_many_inbox [OF this] obtain b where
    b: "recv_many lib (buffer_os now) (length ms) (?start (sent a)) = Some (Inr ms, b)" "inbox lib b = []"
    by blast
  with recv_envelope_inbox [of b lib now] a show ?thesis by auto
qed

theorem v1_transport_roundtrip_witness:
  "\<exists>a b. send_many halves (buffer_os 0) [[1, 2, 3], [9]]
        \<lparr>t_stream = \<lparr>wire_in = [], wire_out = []\<rparr>, t_dechunker = new_dechunker halves\<rparr> = Some (Inr (), a)
    \<and> recv_many halves (buffer_os 0) 2
        \<lparr>t_stream = \<lparr>wire_in = sent a, wire_out = []\<rparr>, t_dechunker = new_dechunker halves\<rparr> =
        Some (Inr [[1, 2, 3], [9]], b)"
  using v1_transport_roundtrip [OF halves_law, of "[[1, 2, 3], [9]]" 0] by (auto simp: numeral_2_eq_2)

section \<open>The session on a stream\<close>

text \<open>What the session comes to, given the envelopes that arrive before the stream ends.\<close>

fun session_spec ::
    "('k, 'x, 'b, 'e, 'a, 'p, 'o, 'v) gstp \<Rightarrow> 'k \<Rightarrow> 'a \<Rightarrow> bytes list \<Rightarrow> (v1_error, unit) result" where
  "session_spec g my_priv replay [] = Inl Io_Failed"
| "session_spec g my_priv replay (m # ms) =
     (case open_envelope g my_priv replay m of
        (Inl e, _) \<Rightarrow> Inl e
      | (Inr (PairingResponse _), _) \<Rightarrow> Inr ()
      | (Inr _, replay') \<Rightarrow> session_spec g my_priv replay' ms)"

text \<open>The bytes one message takes on the wire.\<close>

definition wire_of :: "('c, 'd) btp \<Rightarrow> bytes \<Rightarrow> bytes" where
  "wire_of lib m = concat (map frame_of (chunk lib m))"

lemma v1_send_buffer:
  "v1_send g lib (buffer_os now) msg k x dx t =
     Some (Inr (), t\<lparr>t_stream := (t_stream t)\<lparr>wire_out := sent t @ wire_of lib (v1_seal g now k x dx msg)\<rparr>\<rparr>)"
  by (simp add: v1_send_def send_envelope_buffer wire_of_def)

lemma pairing_loop_spec:
  "\<exists>t'. pairing_loop g lib (buffer_os now) k x dx replay t =
      Some (session_spec g k replay (inbox lib t), t')
    \<and> sent t' = sent t @ (if session_spec g k replay (inbox lib t) = Inr ()
        then wire_of lib (v1_seal g now k x dx envoy_status) else [])"
proof (induction "inbox lib t" arbitrary: t replay)
  case Nil
  with recv_envelope_inbox [of t lib now] obtain t' where
    "recv_envelope lib (buffer_os now) t = Some (Inl Io_Failed, t')" "sent t' = sent t" by auto
  then show ?case
    by (subst pairing_loop.simps) (simp flip: Nil)
next
  case (Cons m ms)
  obtain t1 where
    r: "recv_envelope lib (buffer_os now) t = Some (Inr m, t1)" "sent t1 = sent t" "inbox lib t1 = ms"
    using recv_envelope_inbox [of t lib now] unfolding Cons.hyps(2) [symmetric] by auto
  note IH = Cons.hyps(1) [of t1, unfolded r(3), OF refl]
  obtain res replay' where op: "open_envelope g k replay m = (res, replay')" by force
  show ?case
  proof (cases res)
    case (Inl e)
    with op r show ?thesis
      by (subst pairing_loop.simps) (simp flip: Cons.hyps(2))
  next
    case (Inr msg)
    show ?thesis
    proof (cases msg)
      case (PairingResponse p)
      with op r Inr show ?thesis
        by (subst pairing_loop.simps) (simp add: v1_send_buffer flip: Cons.hyps(2))
    qed (use op r Inr IH [of replay'] in
          \<open>subst pairing_loop.simps, simp flip: Cons.hyps(2)\<close>)+
  qed
qed

text \<open>C13. The whole session, on any bytes the device sends before the stream ends: it first writes
  the sealed \<open>PairingRequest\<close>, then reads envelopes with the replay cache threaded through,
  ignores every message that is not a \<open>PairingResponse\<close>, stops at the first envelope that
  does not open, and writes the sealed \<open>EnvoyStatus\<close> exactly when a \<open>PairingResponse\<close>
  was unsealed, after which it returns; it always returns.\<close>

theorem v1_session_refines:
  "\<exists>t'. v1_session g lib (buffer_os now) device_xid t =
      Some (session_spec g (fst (generate_identity g)) (empty_cache g) (inbox lib t), t')
    \<and> sent t' = sent t
        @ wire_of lib (v1_seal g now (fst (generate_identity g)) (snd (generate_identity g)) device_xid
            (PairingRequest (xid_cbor g (snd (generate_identity g))) ''foundation-lab v1''))
        @ (if session_spec g (fst (generate_identity g)) (empty_cache g) (inbox lib t) = Inr ()
           then wire_of lib (v1_seal g now (fst (generate_identity g)) (snd (generate_identity g))
             device_xid envoy_status)
           else [])"
proof -
  obtain k x where g: "generate_identity g = (k, x)" by force
  let ?t = "t\<lparr>t_stream := (t_stream t)\<lparr>wire_out := sent t
    @ wire_of lib (v1_seal g now k x device_xid (PairingRequest (xid_cbor g x) ''foundation-lab v1''))\<rparr>\<rparr>"
  have "v1_session g lib (buffer_os now) device_xid t =
      pairing_loop g lib (buffer_os now) k x device_xid (empty_cache g) ?t"
    by (simp add: v1_session_def g io_then_def v1_send_buffer)
  moreover obtain t' where "pairing_loop g lib (buffer_os now) k x device_xid (empty_cache g) ?t =
      Some (session_spec g k (empty_cache g) (inbox lib t), t')"
    "sent t' = sent ?t @ (if session_spec g k (empty_cache g) (inbox lib t) = Inr ()
        then wire_of lib (v1_seal g now k x device_xid envoy_status) else [])"
    using pairing_loop_spec [of g lib now k x device_xid "empty_cache g" ?t]
    unfolding inbox_out by blast
  ultimately show ?thesis
    by (intro exI [of _ t']) (simp only: g fst_conv snd_conv, simp)
qed

section \<open>Where the device's XID comes from\<close>

lemma device_xid_path_split:
  "''--device-xid'' \<notin> set pre \<Longrightarrow> device_xid_path (pre @ ''--device-xid'' # rest) = get_at rest 0"
  by (subst device_xid_path_def, subst dropWhile_append2) (auto simp: get_at_def)

lemma device_xid_path_absent: "''--device-xid'' \<notin> set args \<Longrightarrow> device_xid_path args = None"
  by (induction args) (auto simp: device_xid_path_def get_at_def)

text \<open>The device's XID is the document whose CBOR is given in hexadecimal, with any white space
  around it: the environment variable wins over the command line, otherwise the file named after
  the first \<open>--device-xid\<close> is read; with neither, or with that flag as the last argument, the
  client fails before it connects.\<close>

theorem load_device_xid_sources:
  assumes hex: "\<And>b. hex (hex_encode b) = Some b"
    and cbor: "parse_cbor g b = Some v" "xid_of_cbor g v = Some x" "b \<noteq> []"
    and pad: "set p \<subseteq> set white_space" "set q \<subseteq> set white_space"
    and content: "read_file path = Some (concat p @ hex_encode b @ concat q)"
    and pre: "''--device-xid'' \<notin> set pre"
  shows "load_device_xid g hex read_file (Some (concat p @ hex_encode b @ concat q)) args = Inr x
    \<and> load_device_xid g hex read_file None (pre @ ''--device-xid'' # path # rest) = Inr x
    \<and> load_device_xid g hex read_file None pre = Inl Xid_Required
    \<and> load_device_xid g hex read_file None (pre @ [''--device-xid'']) = Inl Xid_Required"
proof -
  have "str_trim (concat p @ hex_encode b @ concat q) = hex_encode b"
    using cbor(3) by (intro str_trim_pad pad hex_encode_chars) simp
  then show ?thesis
    using device_xid_path_split [OF pre] device_xid_path_absent [OF pre]
    by (simp add: load_device_xid_def hex cbor content)
qed

text \<open>An instance: documents of one byte, found in a file that ends in a newline.\<close>

definition gstp_demo :: "(unit, u8, u8, unit, unit, unit, unit, unit) gstp" where
  "gstp_demo = \<lparr>generate_identity = ((), 7), xid_cbor = (\<lambda>x. [x]),
     parse_cbor = (\<lambda>b. case b of [x] \<Rightarrow> Some x | _ \<Rightarrow> None), xid_of_cbor = Some,
     envelope_of_cbor = (\<lambda>_. None), envelope_cbor = (\<lambda>_. []), seal = (\<lambda>_ _ _. ()),
     unseal = (\<lambda>_ _ _. (None, ())), empty_cache = (), protocol_version = ()\<rparr>"

theorem load_device_xid_sources_witness:
  "load_device_xid gstp_demo hex_decode (\<lambda>_. Some (hex_encode [0x2a] @ [char_of (10 :: nat)])) None
     [''client'', ''--device-xid'', ''xid.hex''] = Inr 0x2a"
proof -
  let ?nl = "[char_of (10 :: nat)]"
  have nl: "set [?nl] \<subseteq> set white_space" by code_simp
  have content: "Some (hex_encode [0x2a] @ ?nl) = Some (concat [] @ hex_encode [0x2a] @ concat [?nl])"
    by simp
  have pre: "''--device-xid'' \<notin> set [''client'']" by simp
  have cbor: "parse_cbor gstp_demo [0x2a] = Some 0x2a" "xid_of_cbor gstp_demo 0x2a = Some 0x2a"
    by (simp_all add: gstp_demo_def)
  have triv: "[0x2a] \<noteq> ([] :: bytes)" "set [] \<subseteq> set white_space" by simp_all
  note claim = load_device_xid_sources [where hex = hex_decode and g = gstp_demo and b = "[0x2a]"
      and v = "0x2a" and x = "0x2a" and p = "[]" and q = "[?nl]" and path = "''xid.hex''"
      and read_file = "\<lambda>_. Some (hex_encode [0x2a] @ ?nl)"
      and pre = "[''client'']" and rest = "[]" and args = "[]",
      OF hex_decode_encode cbor triv nl content pre]
  show ?thesis
    using claim [THEN conjunct2, THEN conjunct1] by (simp only: append.simps)
qed

end
