(* ===== verification/Logs.thy ===== *)
theory Logs
  imports Codec Rust_Str
begin

text \<open>
  The device log reader (\<^verbatim>\<open>fl/src/logs.rs\<close>): finding the debug endpoint, the
  reconnect loop with its deadline, the reassembly of USB transfers into frames, and the
  splitting of log frames into the records it prints.  The USB library is outside: what it
  reports arrives as events.
\<close>

section \<open>Connecting\<close>

definition FRAME_LOG :: u8 where "FRAME_LOG = 0x01"
definition RECORD_TERMINATOR :: u8 where "RECORD_TERMINATOR = 0x1e"
definition READ_CHUNK :: nat where "READ_CHUNK = 64 * 1024"

datatype usb_transfer = Control | Isochronous | Bulk | Interrupt
datatype usb_direction = In | Out

record usb_endpoint =
  ue_address :: u8
  ue_transfer :: usb_transfer
  ue_direction :: usb_direction

record usb_descriptor =
  ud_class :: u8
  ud_number :: u8
  ud_endpoints :: "usb_endpoint list"

text \<open>The loops over endpoints and descriptors; the two variables are set together.\<close>

fun scan_endpoints :: "u8 \<Rightarrow> usb_endpoint list \<Rightarrow> u8 option \<times> u8 option \<Rightarrow> u8 option \<times> u8 option" where
  "scan_endpoints num [] acc = acc"
| "scan_endpoints num (ep # eps) acc =
     scan_endpoints num eps
       (if ue_transfer ep = Bulk \<and> ue_direction ep = In then (Some num, Some (ue_address ep)) else acc)"

fun scan_descriptors :: "usb_descriptor list \<Rightarrow> u8 option \<times> u8 option \<Rightarrow> u8 option \<times> u8 option" where
  "scan_descriptors [] acc = acc"
| "scan_descriptors (desc # ds) acc =
     scan_descriptors ds
       (if ud_class desc \<noteq> 0xff then acc else scan_endpoints (ud_number desc) (ud_endpoints desc) acc)"

datatype connect_error = No_Device | No_Config | No_Interface | No_Endpoint | Claim_Failed

text \<open>
  \<open>open_device\<close> says whether the device opens, \<open>config\<close> is its configuration, one list of
  alternate settings per interface, and \<open>claim\<close> says whether the interface can be claimed.
\<close>

definition connect ::
    "bool \<Rightarrow> usb_descriptor list list option \<Rightarrow> (u8 \<Rightarrow> bool) \<Rightarrow> (connect_error, u8 \<times> u8) result" where
  "connect open_device config claim =
     and_then (ok_or (if open_device then Some () else None) No_Device) (\<lambda>_.
     and_then (ok_or config No_Config) (\<lambda>interfaces.
     let (iface, ep_in) = scan_descriptors (concat interfaces) (None, None) in
     and_then (ok_or iface No_Interface) (\<lambda>iface.
     and_then (ok_or ep_in No_Endpoint) (\<lambda>ep_in.
     if claim iface then Inr (ep_in, iface) else Inl Claim_Failed))))"

section \<open>State\<close>

record logs_args =
  log_filter :: "string option"
  log_limit :: "nat option"
  log_timeout :: "nat option"

text \<open>What \<open>connect\<close> and \<open>read_bulk\<close> report, one event per turn of a loop.\<close>

datatype usb_event =
    Connect_Failed
  | Connect_Ok
  | Transferred bytes
  | Timed_Out
  | Gone

datatype logs_phase = Reconnecting | Streaming | Finished

datatype notice = Waiting_Notice | Streaming_Notice | Disconnected_Notice

record logs_state =
  phase :: logs_phase
  waiting :: bool
  records :: bytes
  frame :: bytes
  printed :: nat
  out :: "string list"
  notices :: "notice list"

definition logs_start :: logs_state where
  "logs_start = \<lparr>phase = Reconnecting, waiting = False, records = [], frame = [], printed = 0,
     out = [], notices = []\<rparr>"

section \<open>Records\<close>

text \<open>The record before the first terminator, and what follows it.\<close>

definition split_record :: "bytes \<Rightarrow> (bytes \<times> bytes) option" where
  "split_record rs =
     (if RECORD_TERMINATOR \<in> set rs
      then Some (takeWhile (\<lambda>b. b \<noteq> RECORD_TERMINATOR) rs, tl (dropWhile (\<lambda>b. b \<noteq> RECORD_TERMINATOR) rs))
      else None)"

definition render_record :: "bytes \<Rightarrow> string" where
  "render_record r = trim_end_matches [CHR 0x0d, CHR 0x0a] (from_utf8_lossy r)"

definition filtered_out :: "logs_args \<Rightarrow> string \<Rightarrow> bool" where
  "filtered_out a line = (case log_filter a of None \<Rightarrow> False | Some want \<Rightarrow> \<not> str_contains line want)"

definition limit_reached :: "logs_args \<Rightarrow> nat \<Rightarrow> bool" where
  "limit_reached a n = (case log_limit a of None \<Rightarrow> False | Some l \<Rightarrow> l \<le> n)"

lemma split_record_shrinks: "split_record s = Some (r, rest) \<Longrightarrow> length rest < length s"
proof -
  assume "split_record s = Some (r, rest)"
  then have "RECORD_TERMINATOR \<in> set s" "rest = tl (dropWhile (\<lambda>b. b \<noteq> RECORD_TERMINATOR) s)"
    by (auto simp: split_record_def split: if_splits)
  moreover from this have "dropWhile (\<lambda>b. b \<noteq> RECORD_TERMINATOR) s \<noteq> []" by auto
  ultimately show ?thesis
    using length_dropWhile_le [of "\<lambda>b. b \<noteq> RECORD_TERMINATOR" s]
    by (cases "dropWhile (\<lambda>b. b \<noteq> RECORD_TERMINATOR) s") auto
qed

text \<open>The inner \<open>while let\<close>: whether the limit was reached, and the new record buffer,
  counter and output.\<close>

function drain_records ::
    "logs_args \<Rightarrow> bytes \<Rightarrow> nat \<Rightarrow> string list \<Rightarrow> bool \<times> bytes \<times> nat \<times> string list" where
  "drain_records a rs n lines =
     (case split_record rs of
        None \<Rightarrow> (False, rs, n, lines)
      | Some (r, rest) \<Rightarrow>
          (let line = render_record r in
           if line = [] then drain_records a rest n lines
           else if filtered_out a line then drain_records a rest n lines
           else if limit_reached a (n + 1) then (True, rest, n + 1, lines @ [line])
           else drain_records a rest (n + 1) (lines @ [line])))"
  by pat_completeness auto
termination
  by (relation "measure (\<lambda>(a, rs, n, lines). length rs)") (auto simp: split_record_shrinks)

declare drain_records.simps [simp del]

section \<open>The loop\<close>

definition deadline_passed :: "logs_args \<Rightarrow> nat \<Rightarrow> nat \<Rightarrow> bool" where
  "deadline_passed a start now = (case log_timeout a of None \<Rightarrow> False | Some secs \<Rightarrow> start + 1000 * secs \<le> now)"

text \<open>A complete, non-empty frame.\<close>

definition handle_log_frame :: "logs_args \<Rightarrow> logs_state \<Rightarrow> logs_state" where
  "handle_log_frame a s =
     (if hd (frame s) = FRAME_LOG
      then (case drain_records a (records s @ tl (frame s)) (printed s) (out s) of
              (stop, rs, n, lines) \<Rightarrow>
                s\<lparr>records := rs, printed := n, out := lines, frame := (if stop then frame s else []),
                  phase := if stop then Finished else phase s\<rparr>)
      else s\<lparr>frame := []\<rparr>)"

definition on_transfer :: "logs_args \<Rightarrow> bytes \<Rightarrow> logs_state \<Rightarrow> logs_state" where
  "on_transfer a b s =
     (let n = length b;
          s = (if n = 0 then s else s\<lparr>frame := frame s @ b\<rparr>);
          end_of_frame = (n = 0 \<or> n < READ_CHUNK) in
      if \<not> end_of_frame \<or> frame s = [] then s else handle_log_frame a s)"

text \<open>
  One turn at time \<open>now\<close> (in milliseconds): both loops check the deadline first.  An event
  that the current call cannot report does not occur; it is \<open>None\<close>.
\<close>

definition logs_step :: "logs_args \<Rightarrow> nat \<Rightarrow> nat \<times> usb_event \<Rightarrow> logs_state \<Rightarrow> logs_state option" where
  "logs_step a start e s = (case e of (now, ev) \<Rightarrow>
     if phase s = Finished then Some s
     else if deadline_passed a start now then Some (s\<lparr>phase := Finished\<rparr>)
     else case (phase s, ev) of
       (Reconnecting, Connect_Failed) \<Rightarrow>
         Some (if waiting s then s else s\<lparr>waiting := True, notices := notices s @ [Waiting_Notice]\<rparr>)
     | (Reconnecting, Connect_Ok) \<Rightarrow>
         Some (s\<lparr>phase := Streaming, waiting := False, records := [], frame := [],
                 notices := notices s @ [Streaming_Notice]\<rparr>)
     | (Streaming, Transferred b) \<Rightarrow> Some (on_transfer a b s)
     | (Streaming, Timed_Out) \<Rightarrow> Some s
     | (Streaming, Gone) \<Rightarrow>
         Some (s\<lparr>phase := Reconnecting, notices := notices s @ [Disconnected_Notice]\<rparr>)
     | _ \<Rightarrow> None)"

text \<open>The state after a finite run of events; the program itself runs until it finishes.\<close>

fun logs_run :: "logs_args \<Rightarrow> nat \<Rightarrow> (nat \<times> usb_event) list \<Rightarrow> logs_state \<Rightarrow> logs_state option" where
  "logs_run a start [] s = Some s"
| "logs_run a start (e # es) s =
     (case logs_step a start e s of None \<Rightarrow> None | Some s' \<Rightarrow> logs_run a start es s')"

section \<open>Records as a stream format\<close>

definition record_bytes :: "bytes \<Rightarrow> bytes" where
  "record_bytes r = r @ [RECORD_TERMINATOR]"

definition record_ok :: "bytes \<Rightarrow> bool" where
  "record_ok r \<longleftrightarrow> RECORD_TERMINATOR \<notin> set r"

lemma split_record_bytes: "record_ok r \<Longrightarrow> split_record (record_bytes r @ rest) = Some (r, rest)"
  by (auto simp: split_record_def record_bytes_def record_ok_def takeWhile_append dropWhile_append
      takeWhile_eq_all_conv dropWhile_eq_Nil_conv)

lemma split_record_extend: "split_record s = Some (r, rest) \<Longrightarrow> split_record (s @ t) = Some (r, rest @ t)"
proof -
  assume "split_record s = Some (r, rest)"
  then have t: "RECORD_TERMINATOR \<in> set s" and r: "r = takeWhile (\<lambda>b. b \<noteq> RECORD_TERMINATOR) s"
    "rest = tl (dropWhile (\<lambda>b. b \<noteq> RECORD_TERMINATOR) s)"
    by (auto simp: split_record_def split: if_splits)
  from t have "dropWhile (\<lambda>b. b \<noteq> RECORD_TERMINATOR) s \<noteq> []" by auto
  with t r show ?thesis
    by (auto simp: split_record_def)
qed

interpretation records: stream_codec record_bytes split_record record_ok
  by unfold_locales
    (rule split_record_bytes, assumption, rule split_record_shrinks, assumption,
      rule split_record_extend)

section \<open>What is printed\<close>

definition shown :: "logs_args \<Rightarrow> string \<Rightarrow> bool" where
  "shown a line \<longleftrightarrow> line \<noteq> [] \<and> \<not> filtered_out a line"

text \<open>The lines of a run of log bytes, before any limit.\<close>

definition log_lines :: "logs_args \<Rightarrow> bytes \<Rightarrow> string list" where
  "log_lines a rs = filter (shown a) (map render_record (fst (decode_all split_record rs)))"

text \<open>
  How many more lines a running reader prints once \<open>n\<close> are printed.  The limit is looked at
  after a line is printed, so that at least one more line comes out.
\<close>

definition quota :: "logs_args \<Rightarrow> nat \<Rightarrow> string list \<Rightarrow> string list" where
  "quota a n lines = (case log_limit a of None \<Rightarrow> lines | Some l \<Rightarrow> take (max 1 (l - n)) lines)"

definition used_up :: "logs_args \<Rightarrow> nat \<Rightarrow> string list \<Rightarrow> bool" where
  "used_up a n lines = (case log_limit a of None \<Rightarrow> False | Some l \<Rightarrow> max 1 (l - n) \<le> length lines)"

lemma quota_Nil [simp]: "quota a n [] = []" "\<not> used_up a n []"
  by (auto simp: quota_def used_up_def split: option.split)

lemma quota_Cons:
  "quota a n (x # xs) = x # (if limit_reached a (n + 1) then [] else quota a (n + 1) xs)"
  "used_up a n (x # xs) = (limit_reached a (n + 1) \<or> used_up a (n + 1) xs)"
proof -
  have "max 1 (l - n) = (if l \<le> n + 1 then 1 else Suc (max 1 (l - (n + 1))))" for l :: nat
    by auto
  then show "quota a n (x # xs) = x # (if limit_reached a (n + 1) then [] else quota a (n + 1) xs)"
    "used_up a n (x # xs) = (limit_reached a (n + 1) \<or> used_up a (n + 1) xs)"
    by (auto simp: quota_def used_up_def limit_reached_def split: option.split)
qed

lemma quota_append:
  "quota a n (xs @ ys) = quota a n xs @ (if used_up a n xs then [] else quota a (n + length (quota a n xs)) ys)"
  "used_up a n (xs @ ys) = (used_up a n xs \<or> used_up a (n + length (quota a n xs)) ys)"
  by (induction xs arbitrary: n) (auto simp: quota_Cons)

lemma log_lines_step:
  assumes "split_record rs = Some (r, rest)"
  shows "log_lines a rs = (if shown a (render_record r) then [render_record r] else []) @ log_lines a rest"
  by (simp add: log_lines_def records.decode_all_step [OF assms])

lemma log_lines_append:
  "log_lines a (s @ t) = log_lines a s @ log_lines a (snd (decode_all split_record s) @ t)"
  by (simp add: log_lines_def records.decode_all_split [of s t])

lemma drain_records_spec:
  "\<exists>rest. drain_records a rs n lines =
      (used_up a n (log_lines a rs), rest, n + length (quota a n (log_lines a rs)),
       lines @ quota a n (log_lines a rs))
    \<and> (\<not> used_up a n (log_lines a rs) \<longrightarrow> rest = snd (decode_all split_record rs))"
proof (induction a rs n lines rule: drain_records.induct)
  case (1 a rs n lines)
  show ?case
  proof (cases "split_record rs")
    case None
    then have "decode_all split_record rs = ([], rs)" by (rule decode_all_None)
    with None show ?thesis by (subst drain_records.simps) (simp add: log_lines_def)
  next
    case (Some rr)
    then obtain r rest where rr: "split_record rs = Some (r, rest)" by (cases rr) auto
    note step = log_lines_step [OF rr, of a] records.decode_all_step [OF rr]
    consider "\<not> shown a (render_record r)"
      | "shown a (render_record r)" "limit_reached a (n + 1)"
      | "shown a (render_record r)" "\<not> limit_reached a (n + 1)" by blast
    then show ?thesis
    proof cases
      case 1
      then have "drain_records a rs n lines = drain_records a rest n lines"
        by (subst drain_records.simps) (auto simp: rr shown_def Let_def)
      with 1 step "1.IH"(1,2) [OF rr refl refl] show ?thesis
        unfolding shown_def by (cases "render_record r = []") simp_all
    next
      case 2
      with step show ?thesis
        by (subst drain_records.simps) (simp add: rr shown_def Let_def quota_Cons)
    next
      case 3
      then have "drain_records a rs n lines = drain_records a rest (n + 1) (lines @ [render_record r])"
        by (subst drain_records.simps) (simp add: rr shown_def Let_def)
      with 3 step "1.IH"(3) [OF rr refl refl] show ?thesis
        by (simp add: shown_def quota_Cons)
    qed
  qed
qed

section \<open>From transfers to lines\<close>

text \<open>Frames end at the first transfer that does not fill the read buffer.\<close>

fun deframe :: "bytes \<Rightarrow> bytes list \<Rightarrow> bytes list \<times> bytes" where
  "deframe buf [] = ([], buf)"
| "deframe buf (t # ts) =
     (if length t < READ_CHUNK \<and> buf @ t \<noteq> []
      then ((buf @ t) # fst (deframe [] ts), snd (deframe [] ts))
      else deframe (buf @ t) ts)"

definition log_payload :: "bytes \<Rightarrow> bytes" where
  "log_payload f = (if hd f = FRAME_LOG then tl f else [])"

definition log_stream :: "bytes \<Rightarrow> bytes list \<Rightarrow> bytes" where
  "log_stream buf ts = concat (map log_payload (fst (deframe buf ts)))"

fun transfers :: "(nat \<times> usb_event) list \<Rightarrow> bytes list" where
  "transfers [] = []"
| "transfers ((now, Transferred b) # es) = b # transfers es"
| "transfers ((now, ev) # es) = transfers es"

text \<open>Turns in which the device stays connected and the deadline does not pass.\<close>

definition steady :: "logs_args \<Rightarrow> nat \<Rightarrow> (nat \<times> usb_event) list \<Rightarrow> bool" where
  "steady a start es \<longleftrightarrow>
     list_all (\<lambda>(now, ev). \<not> deadline_passed a start now \<and> (ev = Timed_Out \<or> (\<exists>b. ev = Transferred b))) es"

lemma on_transfer_unfold:
  "on_transfer a b s =
     (if length b < READ_CHUNK \<and> frame s @ b \<noteq> []
      then handle_log_frame a (s\<lparr>frame := frame s @ b\<rparr>) else s\<lparr>frame := frame s @ b\<rparr>)"
  by (auto simp: on_transfer_def Let_def READ_CHUNK_def)

text \<open>One frame: the records it completes are printed, the rest is kept.\<close>

lemma handle_log_frame_spec:
  fixes s a
  defines "lines \<equiv> log_lines a (records s @ log_payload (frame s))"
  assumes "split_record (records s) = None"
  shows "out (handle_log_frame a s) = out s @ quota a (printed s) lines"
    "printed (handle_log_frame a s) = printed s + length (quota a (printed s) lines)"
    "phase (handle_log_frame a s) = (if used_up a (printed s) lines then Finished else phase s)"
    "\<not> used_up a (printed s) lines \<Longrightarrow>
      records (handle_log_frame a s) = snd (decode_all split_record (records s @ log_payload (frame s)))
      \<and> frame (handle_log_frame a s) = []"
proof -
  have "out (handle_log_frame a s) = out s @ quota a (printed s) lines
    \<and> printed (handle_log_frame a s) = printed s + length (quota a (printed s) lines)
    \<and> phase (handle_log_frame a s) = (if used_up a (printed s) lines then Finished else phase s)
    \<and> (\<not> used_up a (printed s) lines \<longrightarrow>
        records (handle_log_frame a s) = snd (decode_all split_record (records s @ log_payload (frame s)))
        \<and> frame (handle_log_frame a s) = [])"
  proof (cases "hd (frame s) = FRAME_LOG")
    case True
    then have payload: "log_payload (frame s) = tl (frame s)" by (simp add: log_payload_def)
    obtain rest where
      "drain_records a (records s @ tl (frame s)) (printed s) (out s) =
        (used_up a (printed s) lines, rest, printed s + length (quota a (printed s) lines),
         out s @ quota a (printed s) lines)"
      "\<not> used_up a (printed s) lines \<longrightarrow> rest = snd (decode_all split_record (records s @ tl (frame s)))"
      using drain_records_spec [of a "records s @ tl (frame s)" "printed s" "out s"]
      unfolding lines_def payload by blast
    with True show ?thesis by (simp add: handle_log_frame_def payload)
  next
    case False
    moreover have "decode_all split_record (records s) = ([], records s)"
      using assms(2) by (rule decode_all_None)
    ultimately show ?thesis
      by (simp add: handle_log_frame_def lines_def log_payload_def log_lines_def)
  qed
  then show "out (handle_log_frame a s) = out s @ quota a (printed s) lines"
    "printed (handle_log_frame a s) = printed s + length (quota a (printed s) lines)"
    "phase (handle_log_frame a s) = (if used_up a (printed s) lines then Finished else phase s)"
    "\<not> used_up a (printed s) lines \<Longrightarrow>
      records (handle_log_frame a s) = snd (decode_all split_record (records s @ log_payload (frame s)))
      \<and> frame (handle_log_frame a s) = []"
    by blast+
qed

lemma logs_run_finished: "phase s = Finished \<Longrightarrow> logs_run a start es s = Some s"
  by (induction es) (simp_all add: logs_step_def split: prod.split)

lemma logs_run_steady:
  assumes "phase s = Streaming" "split_record (records s) = None" "steady a start es"
  shows "\<exists>s'. logs_run a start es s = Some s'
    \<and> (let lines = log_lines a (records s @ log_stream (frame s) (transfers es)) in
       out s' = out s @ quota a (printed s) lines
       \<and> printed s' = printed s + length (quota a (printed s) lines)
       \<and> phase s' = (if used_up a (printed s) lines then Finished else Streaming))"
  using assms
proof (induction es arbitrary: s)
  case Nil
  then have "log_lines a (records s) = []" by (simp add: log_lines_def decode_all_None)
  with Nil show ?case by (simp add: log_stream_def)
next
  case (Cons e es)
  obtain now ev where e: "e = (now, ev)" by force
  from Cons.prems e have quiet: "\<not> deadline_passed a start now" and es: "steady a start es"
    and ev: "ev = Timed_Out \<or> (\<exists>b. ev = Transferred b)" by (auto simp: steady_def)
  show ?case
  proof (cases ev)
    case Timed_Out
    with Cons.IH [OF Cons.prems(1,2) es] Cons.prems(1) quiet e show ?thesis
      by (simp add: logs_step_def)
  next
    case (Transferred b)
    then have run: "logs_run a start (e # es) s = logs_run a start es (on_transfer a b s)"
      and tr: "transfers (e # es) = b # transfers es"
      using Cons.prems(1) quiet e by (simp_all add: logs_step_def)
    let ?f = "frame s @ b"
    show ?thesis
    proof (cases "length b < READ_CHUNK \<and> ?f \<noteq> []")
      case False
      then have "on_transfer a b s = s\<lparr>frame := ?f\<rparr>"
        "log_stream (frame s) (b # transfers es) = log_stream ?f (transfers es)"
        by (simp_all only: on_transfer_unfold log_stream_def deframe.simps if_False)
      with Cons.IH [of "s\<lparr>frame := ?f\<rparr>"] Cons.prems(1,2) es run tr show ?thesis by simp
    next
      case True
      let ?s = "s\<lparr>frame := ?f\<rparr>" and ?rest = "log_stream [] (transfers es)"
      let ?l = "log_lines a (records s @ log_payload ?f)"
      have step: "on_transfer a b s = handle_log_frame a ?s"
        unfolding on_transfer_unfold if_P [OF True] by (rule refl)
      have "log_stream (frame s) (b # transfers es) = log_payload ?f @ ?rest"
        using True by (simp add: log_stream_def)
      then have lines: "log_lines a (records s @ log_stream (frame s) (b # transfers es)) =
          ?l @ log_lines a (snd (decode_all split_record (records s @ log_payload ?f)) @ ?rest)"
        using log_lines_append [of a "records s @ log_payload ?f" ?rest] by simp
      have "split_record (records ?s) = None" using Cons.prems(2) by simp
      note h = handle_log_frame_spec [of ?s a, OF this, simplified]
      show ?thesis
      proof (cases "used_up a (printed s) ?l")
        case True
        with h(3) have fin: "phase (handle_log_frame a ?s) = Finished" by simp
        show ?thesis
          unfolding run tr step logs_run_finished [OF fin] lines
          using True by (simp add: h(1,2) fin quota_append Let_def)
      next
        case False
        with h Cons.prems(1) have next_state: "phase (handle_log_frame a ?s) = Streaming"
          "records (handle_log_frame a ?s) = snd (decode_all split_record (records s @ log_payload ?f))"
          "frame (handle_log_frame a ?s) = []"
          by simp_all
        have "split_record (records (handle_log_frame a ?s)) = None"
          unfolding next_state by (rule records.decode_all_stuck)
        from Cons.IH [OF next_state(1) this es] obtain s' where
          s': "logs_run a start es (handle_log_frame a ?s) = Some s'" and
          shape: "let lines = log_lines a (records (handle_log_frame a ?s)
                @ log_stream (frame (handle_log_frame a ?s)) (transfers es)) in
            out s' = out (handle_log_frame a ?s) @ quota a (printed (handle_log_frame a ?s)) lines
            \<and> printed s' = printed (handle_log_frame a ?s)
                + length (quota a (printed (handle_log_frame a ?s)) lines)
            \<and> phase s' = (if used_up a (printed (handle_log_frame a ?s)) lines then Finished else Streaming)"
          by blast
        show ?thesis
          unfolding run tr step lines
          using False shape by (intro exI [of _ s']) (simp add: s' next_state h(1,2) quota_append Let_def)
      qed
    qed
  qed (use ev in auto)
qed

section \<open>Connections, one after the other\<close>

lemma logs_run_append:
  "logs_run a start (xs @ ys) s = Option.bind (logs_run a start xs s) (logs_run a start ys)"
  by (induction xs arbitrary: s) (auto split: option.split)

text \<open>
  A connection: failed attempts, the successful one, the turns that follow and the turn that
  finds the device gone.
\<close>

type_synonym connection = "nat list \<times> nat \<times> (nat \<times> usb_event) list \<times> nat"

fun connection_events :: "connection \<Rightarrow> (nat \<times> usb_event) list" where
  "connection_events (failed, t0, es, t1) =
     map (\<lambda>t. (t, Connect_Failed)) failed @ (t0, Connect_Ok) # es @ [(t1, Gone)]"

fun connection_ok :: "logs_args \<Rightarrow> nat \<Rightarrow> connection \<Rightarrow> bool" where
  "connection_ok a start (failed, t0, es, t1) \<longleftrightarrow>
     list_all (\<lambda>t. \<not> deadline_passed a start t) (t0 # t1 # failed) \<and> steady a start es"

fun connection_lines :: "logs_args \<Rightarrow> connection \<Rightarrow> string list" where
  "connection_lines a (failed, t0, es, t1) = log_lines a (log_stream [] (transfers es))"

definition printed_as :: "logs_args \<Rightarrow> logs_state \<Rightarrow> string list \<Rightarrow> logs_state \<Rightarrow> bool" where
  "printed_as a s lines s' \<longleftrightarrow>
     out s' = out s @ quota a (printed s) lines
     \<and> printed s' = printed s + length (quota a (printed s) lines)
     \<and> phase s' = (if used_up a (printed s) lines then Finished else Reconnecting)"

lemma failed_attempts:
  "phase s = Reconnecting \<Longrightarrow> list_all (\<lambda>t. \<not> deadline_passed a start t) ts \<Longrightarrow>
   \<exists>s'. logs_run a start (map (\<lambda>t. (t, Connect_Failed)) ts) s = Some s'
     \<and> phase s' = Reconnecting \<and> out s' = out s \<and> printed s' = printed s"
proof (induction ts arbitrary: s)
  case (Cons t ts)
  then show ?case
    using Cons.IH [of "s\<lparr>waiting := True, notices := notices s @ [Waiting_Notice]\<rparr>"] Cons.IH [of s]
    by (simp add: logs_step_def)
qed simp

lemma one_connection:
  assumes "phase s = Reconnecting" "connection_ok a start c"
  shows "\<exists>s'. logs_run a start (connection_events c) s = Some s' \<and> printed_as a s (connection_lines a c) s'"
proof -
  obtain failed t0 es t1 where c: "c = (failed, t0, es, t1)" by (metis prod_cases4)
  obtain s1 where s1: "logs_run a start (map (\<lambda>t. (t, Connect_Failed)) failed) s = Some s1"
    "phase s1 = Reconnecting" "out s1 = out s" "printed s1 = printed s"
    using failed_attempts [OF assms(1), of a start failed] assms(2) c by auto
  let ?s2 = "s1\<lparr>phase := Streaming, waiting := False, records := [], frame := [],
    notices := notices s1 @ [Streaming_Notice]\<rparr>"
  have s2: "logs_step a start (t0, Connect_Ok) s1 = Some ?s2"
    using s1(2) assms(2) by (simp add: logs_step_def c)
  have "split_record (records ?s2) = None" by (simp add: split_record_def)
  moreover have "phase ?s2 = Streaming" "steady a start es" using assms(2) c by simp_all
  ultimately obtain s3 where
    s3: "logs_run a start es ?s2 = Some s3" and
    shape: "out s3 = out s @ quota a (printed s) (connection_lines a c)"
    "printed s3 = printed s + length (quota a (printed s) (connection_lines a c))"
    "phase s3 = (if used_up a (printed s) (connection_lines a c) then Finished else Streaming)"
    using logs_run_steady [of ?s2 a start es] by (auto simp: c Let_def s1(3,4))
  obtain s4 where s4: "logs_step a start (t1, Gone) s3 = Some s4" "out s4 = out s3" "printed s4 = printed s3"
    "phase s4 = (if phase s3 = Streaming then Reconnecting else phase s3)"
  proof (cases "phase s3 = Streaming")
    case True
    with assms(2) show thesis
      by (intro that [of "s3\<lparr>phase := Reconnecting, notices := notices s3 @ [Disconnected_Notice]\<rparr>"])
        (auto simp: logs_step_def c)
  next
    case False
    with shape(3) have "phase s3 = Finished" by (simp split: if_splits)
    then show thesis by (intro that [of s3]) (auto simp: logs_step_def)
  qed
  have "logs_run a start (connection_events c) s = Some s4"
    by (simp add: c logs_run_append s1(1) s2 s3 s4(1))
  moreover have "printed_as a s (connection_lines a c) s4"
    using shape s4(2-4) by (simp add: printed_as_def)
  ultimately show ?thesis by blast
qed

lemma connections:
  assumes "phase s = Reconnecting" "list_all (connection_ok a start) cs"
  shows "\<exists>s'. logs_run a start (concat (map connection_events cs)) s = Some s'
    \<and> printed_as a s (concat (map (connection_lines a) cs)) s'"
  using assms
proof (induction cs arbitrary: s)
  case (Cons c cs)
  then obtain s1 where s1: "logs_run a start (connection_events c) s = Some s1"
    "printed_as a s (connection_lines a c) s1"
    using one_connection [of s a start c] by auto
  show ?case
  proof (cases "used_up a (printed s) (connection_lines a c)")
    case True
    with s1(2) have "phase s1 = Finished" by (simp add: printed_as_def)
    from logs_run_finished [OF this] s1 True show ?thesis
      by (auto simp: logs_run_append printed_as_def quota_append)
  next
    case False
    with s1(2) have "phase s1 = Reconnecting" by (simp add: printed_as_def)
    from Cons.IH [OF this] Cons.prems(2) s1 False show ?thesis
      by (auto simp: logs_run_append printed_as_def quota_append)
  qed
qed (simp add: printed_as_def)

section \<open>Properties\<close>

text \<open>C10. What the reader prints over any number of connections is decided by the log bytes alone:
  the payloads of the log frames of each connection, in order, cut at the terminators, decoded,
  with empty and filtered records dropped, whatever the sizes of the transfers, the timeouts and
  the frames in between.  A record that the device did not finish before it went away is not
  printed and does not run into the next connection's first record.  With a limit the lines are
  the first \<open>limit\<close> of these, but never fewer than one, and the reader has finished exactly when
  that many were printed.\<close>

theorem logs_print_records:
  assumes "list_all (connection_ok a start) cs"
  shows "\<exists>s. logs_run a start (concat (map connection_events cs)) logs_start = Some s
    \<and> out s = quota a 0 (concat (map (connection_lines a) cs))
    \<and> printed s = length (out s)
    \<and> (phase s = Finished \<longleftrightarrow> used_up a 0 (concat (map (connection_lines a) cs)))"
  using connections [OF _ assms, of logs_start]
  by (auto simp: logs_start_def printed_as_def)

text \<open>A limit of zero still prints one line; the unfinished record of the first connection is lost.\<close>

theorem logs_print_records_witness:
  "\<exists>s. logs_run \<lparr>log_filter = None, log_limit = Some 0, log_timeout = Some 5\<rparr> 0
     (concat (map connection_events
       [([0], 1, [(2, Transferred [1, 0x61])], 3),
        ([4], 5, [(6, Timed_Out), (7, Transferred [1, 0x62, 0x1e, 0x63, 0x1e])], 8)])) logs_start = Some s
   \<and> out s = [''b''] \<and> phase s = Finished"
proof -
  let ?a = "\<lparr>log_filter = None, log_limit = Some 0, log_timeout = Some 5\<rparr>"
  let ?cs = "[([0], 1, [(2, Transferred [1, 0x61])], 3),
    ([4], 5, [(6, Timed_Out), (7, Transferred [1, 0x62, 0x1e, 0x63, 0x1e])], 8)] :: connection list"
  have ok: "list_all (connection_ok ?a 0) ?cs"
    by (simp add: steady_def deadline_passed_def)
  have d1: "split_record [0x61] = None" "split_record [0x62, 0x1e, 0x63, 0x1e] = Some ([0x62], [0x63, 0x1e])"
    "split_record [0x63, 0x1e] = Some ([0x63], [])" "split_record [] = None"
    by (simp_all add: split_record_def RECORD_TERMINATOR_def)
  have ascii: "char_of_u8 0x62 = CHR ''b''" "char_of_u8 0x63 = CHR ''c''" by code_simp+
  have "log_lines ?a [0x61] = []" "log_lines ?a [] = []"
    by (simp_all add: log_lines_def decode_all_None d1)
  moreover have "log_lines ?a [0x62, 0x1e, 0x63, 0x1e] = [''b'', ''c'']"
    by (simp add: log_lines_step [OF d1(2)] log_lines_step [OF d1(3)] shown_def filtered_out_def
        render_record_def from_utf8_lossy_def trim_end_matches_def ascii
        \<open>log_lines ?a [] = []\<close>)
  ultimately have lines: "concat (map (connection_lines ?a) ?cs) = [''b'', ''c'']"
    by (simp add: log_stream_def log_payload_def READ_CHUNK_def FRAME_LOG_def)
  obtain s where s: "logs_run ?a 0 (concat (map connection_events ?cs)) logs_start = Some s"
    "out s = quota ?a 0 [''b'', ''c'']" "phase s = Finished \<longleftrightarrow> used_up ?a 0 [''b'', ''c'']"
    using logs_print_records [OF ok] unfolding lines by blast
  from s(2,3) have "out s = [''b'']" "phase s = Finished" by (simp_all add: quota_def used_up_def)
  with s(1) show ?thesis by blast
qed

section \<open>The device's side of the wire\<close>

text \<open>A frame as bulk transfers: full reads, then a short (possibly empty) one.\<close>

function usb_packets :: "bytes \<Rightarrow> bytes list" where
  "usb_packets f =
     (if length f < READ_CHUNK then [f] else take READ_CHUNK f # usb_packets (drop READ_CHUNK f))"
  by pat_completeness auto
termination
  by (relation "measure length") (auto simp: READ_CHUNK_def)

declare usb_packets.simps [simp del]

lemma deframe_packets:
  "buf @ f \<noteq> [] \<Longrightarrow>
   deframe buf (usb_packets f @ ts) = ((buf @ f) # fst (deframe [] ts), snd (deframe [] ts))"
proof (induction f arbitrary: buf rule: usb_packets.induct)
  case (1 f)
  show ?case
  proof (cases "length f < READ_CHUNK")
    case True
    with "1.prems" show ?thesis by (subst usb_packets.simps) simp
  next
    case False
    then have "f \<noteq> []" "\<not> length (take READ_CHUNK f) < READ_CHUNK" by (auto simp: READ_CHUNK_def)
    with "1.IH" [OF False, of "buf @ take READ_CHUNK f"] False show ?thesis
      by (subst usb_packets.simps) simp
  qed
qed

lemma log_stream_packets:
  "log_stream [] (concat (map (\<lambda>(ty, p). usb_packets (ty # p)) fs)) =
     concat (map snd (filter (\<lambda>(ty, p). ty = FRAME_LOG) fs))"
proof (induction fs)
  case (Cons f fs)
  obtain ty p where "f = (ty, p)" by force
  with Cons show ?case
    by (simp add: log_stream_def deframe_packets log_payload_def)
qed (simp add: log_stream_def)

text \<open>C30. A device that follows the wire format is understood: whatever frames it sends, of whatever
  types and sizes (a multiple of the read size ends in an empty transfer), if the payloads of its
  log frames make up a sequence of terminated records, then those records are printed, one line
  each, in order, also where a record runs over several frames.\<close>

theorem logs_device_roundtrip:
  assumes "connection_ok a start (failed, t0, es, t1)"
    "transfers es = concat (map (\<lambda>(ty, p). usb_packets (ty # p)) fs)"
    "concat (map snd (filter (\<lambda>(ty, p). ty = FRAME_LOG) fs)) = concat (map record_bytes rs)"
    "list_all record_ok rs"
  shows "\<exists>s. logs_run a start (connection_events (failed, t0, es, t1)) logs_start = Some s
    \<and> out s = quota a 0 (filter (shown a) (map render_record rs))"
proof -
  have "connection_lines a (failed, t0, es, t1) = filter (shown a) (map render_record rs)"
    using assms(2-4) records.decode_all_encoded [OF assms(4)]
    by (simp add: log_lines_def log_stream_packets)
  with one_connection [OF _ assms(1), of logs_start] show ?thesis
    by (auto simp: logs_start_def printed_as_def)
qed

theorem logs_device_roundtrip_witness:
  "\<exists>s. logs_run \<lparr>log_filter = None, log_limit = None, log_timeout = None\<rparr> 0
      (connection_events ([], 0, [(1, Transferred [1, 0x68]), (2, Transferred [2, 0x1e]),
        (3, Transferred [1, 0x69, 0x0d, 0x1e])], 4)) logs_start = Some s
    \<and> out s = [''hi'']"
proof -
  let ?a = "\<lparr>log_filter = None, log_limit = None, log_timeout = None\<rparr>"
  have ok: "connection_ok ?a 0 ([], 0, [(1, Transferred [1, 0x68]), (2, Transferred [2, 0x1e]),
      (3, Transferred [1, 0x69, 0x0d, 0x1e])], 4)"
    by (simp add: steady_def deadline_passed_def)
  have ascii: "char_of_u8 0x68 = CHR ''h''" "char_of_u8 0x69 = CHR ''i''" "char_of_u8 0x0d = CHR 0x0d"
    by code_simp+
  have "quota ?a 0 (filter (shown ?a) (map render_record [[0x68, 0x69, 0x0d]])) = [''hi'']"
    by (simp add: quota_def shown_def filtered_out_def render_record_def from_utf8_lossy_def
        trim_end_matches_def ascii)
  with logs_device_roundtrip [OF ok, where fs = "[(1, [0x68]), (2, [0x1e]), (1, [0x69, 0x0d, 0x1e])]"
      and rs = "[[0x68, 0x69, 0x0d]]"] show ?thesis
    by (simp add: usb_packets.simps READ_CHUNK_def FRAME_LOG_def record_bytes_def record_ok_def
        RECORD_TERMINATOR_def)
qed

text \<open>The endpoints the loops look for, in the order they meet them.\<close>

definition log_endpoints :: "usb_descriptor list \<Rightarrow> (u8 \<times> u8) list" where
  "log_endpoints ds = concat (map (\<lambda>d. map (\<lambda>e. (ud_number d, ue_address e))
     (filter (\<lambda>e. ue_transfer e = Bulk \<and> ue_direction e = In) (ud_endpoints d)))
     (filter (\<lambda>d. ud_class d = 0xff) ds))"

definition last_or :: "u8 option \<times> u8 option \<Rightarrow> (u8 \<times> u8) list \<Rightarrow> u8 option \<times> u8 option" where
  "last_or acc xs = (if xs = [] then acc else (Some (fst (last xs)), Some (snd (last xs))))"

lemma last_or_append: "last_or acc (xs @ ys) = last_or (last_or acc xs) ys"
  by (simp add: last_or_def)

lemma scan_endpoints_last:
  "scan_endpoints num eps acc =
     last_or acc (map (\<lambda>e. (num, ue_address e)) (filter (\<lambda>e. ue_transfer e = Bulk \<and> ue_direction e = In) eps))"
  by (induction eps arbitrary: acc) (auto simp: last_or_def)

lemma scan_descriptors_last: "scan_descriptors ds acc = last_or acc (log_endpoints ds)"
proof (induction ds arbitrary: acc)
  case (Cons d ds)
  then show ?case
    by (auto simp: log_endpoints_def scan_endpoints_last last_or_append)
qed (simp add: last_or_def log_endpoints_def)

text \<open>Of all bulk-IN endpoints in vendor-specific descriptors the last one is taken, and the
  interface that is claimed is the one this endpoint belongs to; without any such endpoint the
  attempt fails before anything is claimed, always with the error that names the interface.\<close>

theorem connect_spec:
  "connect True (Some interfaces) claim =
     (if log_endpoints (concat interfaces) = [] then Inl No_Interface
      else if claim (fst (last (log_endpoints (concat interfaces))))
      then Inr (snd (last (log_endpoints (concat interfaces))), fst (last (log_endpoints (concat interfaces))))
      else Inl Claim_Failed)"
  by (simp add: connect_def scan_descriptors_last last_or_def)

end
