(* ===== verification/Ccid_Inspect.thy ===== *)
theory Ccid_Inspect
  imports Rust_Str
begin

text \<open>
  The descriptor dump (\<^verbatim>\<open>fl/src/ccid_inspect.rs\<close>): which devices, interfaces and
  endpoints are listed, and the decoding of the CCID functional descriptor.  A printed line is a
  value that holds what the line shows; \<open>nusb\<close> and the Unicode lower-case table are
  parameters.
\<close>

section \<open>Data\<close>

definition CCID_CLASS :: u8 where "CCID_CLASS = 0x0b"
definition CCID_FUNCTIONAL :: u8 where "CCID_FUNCTIONAL = 0x21"

datatype nusb_transfer = Nusb_Control | Nusb_Isochronous | Nusb_Bulk | Nusb_Interrupt

record alt_endpoint =
  ae_address :: u8
  ae_transfer :: nusb_transfer
  ae_max_packet :: nat
  ae_interval :: u8

record alt_setting =
  as_number :: u8
  as_class :: u8
  as_subclass :: u8
  as_protocol :: u8
  as_endpoints :: "alt_endpoint list"
  as_descriptors :: "(u8 \<times> bytes) list"

record device_info =
  di_vendor :: u16
  di_product :: u16
  di_product_string :: "string option"
  di_configurations :: "alt_setting list list option"

record ccid_args =
  ccid_filter :: "string option"
  ccid_all :: bool

datatype ccid_line =
    Cannot_Open u16 u16 string
  | Device_Header u16 u16 string
  | Interface_Line u8 u8 u8 u8 bool
  | Endpoint_Line u8 string string nat u8
  | Functional_Truncated nat
  | Functional_Fields u8 u8 u32 u32 u32

section \<open>The functional descriptor\<close>

fun transfer_type :: "nusb_transfer \<Rightarrow> string" where
  "transfer_type Nusb_Control = ''Control''"
| "transfer_type Nusb_Isochronous = ''Isochronous''"
| "transfer_type Nusb_Bulk = ''Bulk''"
| "transfer_type Nusb_Interrupt = ''Interrupt''"

definition index_u8 :: "bytes \<Rightarrow> nat \<Rightarrow> (panic, u8) result" where
  "index_u8 d i = ok_or (get_at d i) Index_Out_Of_Bounds"

text \<open>\<open>from_le_bytes\<close> of the four bytes at an offset.\<close>

definition le32_at :: "bytes \<Rightarrow> nat \<Rightarrow> (panic, u32) result" where
  "le32_at d off =
     and_then (index_u8 d off) (\<lambda>a. and_then (index_u8 d (off + 1)) (\<lambda>b.
     and_then (index_u8 d (off + 2)) (\<lambda>c. and_then (index_u8 d (off + 3)) (\<lambda>e.
     Inr (from_be32 e c b a)))))"

definition print_ccid_functional :: "bytes \<Rightarrow> (panic, ccid_line) result" where
  "print_ccid_functional d =
     (if length d < 48 then Inr (Functional_Truncated (length d))
      else and_then (index_u8 d 4) (\<lambda>slots. and_then (index_u8 d 5) (\<lambda>volts.
           and_then (le32_at d 6) (\<lambda>protocols. and_then (le32_at d 40) (\<lambda>features.
           and_then (le32_at d 44) (\<lambda>max_len.
           Inr (Functional_Fields slots volts protocols features max_len)))))))"

section \<open>The listing\<close>

definition ep_line :: "alt_endpoint \<Rightarrow> ccid_line" where
  "ep_line e = Endpoint_Line (ae_address e) (transfer_type (ae_transfer e))
     (if ae_address e AND 0x80 \<noteq> 0 then ''IN '' else ''OUT'') (ae_max_packet e) (ae_interval e)"

fun functional_lines :: "(u8 \<times> bytes) list \<Rightarrow> (panic, ccid_line list) result" where
  "functional_lines [] = Inr []"
| "functional_lines ((ty, d) # ds) =
     (if ty = CCID_FUNCTIONAL
      then and_then (print_ccid_functional d) (\<lambda>l. and_then (functional_lines ds) (\<lambda>ls. Inr (l # ls)))
      else functional_lines ds)"

text \<open>The loop over the alternate settings of all configurations, with its header flag.\<close>

fun alt_loop ::
    "ccid_args \<Rightarrow> device_info \<Rightarrow> string \<Rightarrow> alt_setting list \<Rightarrow> bool \<Rightarrow> (panic, ccid_line list) result" where
  "alt_loop a info product [] header = Inr []"
| "alt_loop a info product (alt # alts) header =
     (let ccid = (as_class alt = CCID_CLASS) in
      if \<not> ccid \<and> \<not> ccid_all a then alt_loop a info product alts header
      else and_then (if ccid then functional_lines (as_descriptors alt) else Inr []) (\<lambda>fs.
           and_then (alt_loop a info product alts True) (\<lambda>rest.
           Inr ((if header then [] else [Device_Header (di_vendor info) (di_product info) product])
             @ [Interface_Line (as_number alt) (as_class alt) (as_subclass alt) (as_protocol alt) ccid]
             @ map ep_line (as_endpoints alt) @ fs @ rest))))"

definition device_lines :: "(string \<Rightarrow> string) \<Rightarrow> ccid_args \<Rightarrow> device_info \<Rightarrow> (panic, ccid_line list) result" where
  "device_lines lower a info =
     (let product = (case di_product_string info of Some p \<Rightarrow> p | None \<Rightarrow> ''<unknown>'') in
      if (case ccid_filter a of Some f \<Rightarrow> \<not> str_contains (lower product) (lower f) | None \<Rightarrow> False) then Inr []
      else case di_configurations info of
        None \<Rightarrow> Inr [Cannot_Open (di_vendor info) (di_product info) product]
      | Some configs \<Rightarrow> alt_loop a info product (concat configs) False)"

fun ccid_run :: "(string \<Rightarrow> string) \<Rightarrow> ccid_args \<Rightarrow> device_info list \<Rightarrow> (panic, ccid_line list) result" where
  "ccid_run lower a [] = Inr []"
| "ccid_run lower a (info # infos) =
     and_then (device_lines lower a info) (\<lambda>ls.
     and_then (ccid_run lower a infos) (\<lambda>rest. Inr (ls @ rest)))"

section \<open>Decoding\<close>

definition le32 :: "u32 \<Rightarrow> bytes" where
  "le32 w = rev (be32 w)"

lemma length_le32 [simp]: "length (le32 w) = 4"
  by (simp add: le32_def)

lemma index_u8_append [simp]:
  "index_u8 (xs @ ys) i = (if i < length xs then index_u8 xs i else index_u8 ys (i - length xs))"
  by (auto simp: index_u8_def get_at_def nth_append)

lemma index_u8_drop: "index_u8 d (n + i) = index_u8 (drop n d) i"
  by (auto simp: index_u8_def get_at_def)

lemma le32_at_drop: "le32_at d n = le32_at (drop n d) 0"
  using index_u8_drop [of d n 0] index_u8_drop [of d n 1] index_u8_drop [of d n 2] index_u8_drop [of d n 3]
  by (simp add: le32_at_def numeral_2_eq_2)

lemma le32_at_le32: "le32_at (le32 w @ rest) 0 = Inr w"
proof -
  obtain a b c d where abcd: "be32 w = [a, b, c, d]" by (simp add: be32_def)
  with from_be32_be32 [of w] have "from_be32 a b c d = w" by (simp add: numeral_2_eq_2 numeral_3_eq_3)
  then show ?thesis
    by (simp add: le32_at_def le32_def abcd index_u8_def get_at_def numeral_2_eq_2 numeral_3_eq_3)
qed

lemma le32_at_window: "length pre = n \<Longrightarrow> le32_at (pre @ le32 w @ rest) n = Inr w"
  by (subst le32_at_drop) (simp add: le32_at_le32)

lemma le32_at_ok: "off + 4 \<le> length d \<Longrightarrow> \<exists>w. le32_at d off = Inr w"
  by (simp add: le32_at_def index_u8_def get_at_def)

lemma print_ccid_functional_ok: "\<exists>l. print_ccid_functional d = Inr l"
proof (cases "length d < 48")
  case False
  then obtain p f m where "le32_at d 6 = Inr p" "le32_at d 40 = Inr f" "le32_at d 44 = Inr m"
    using le32_at_ok [of 6 d] le32_at_ok [of 40 d] le32_at_ok [of 44 d] by auto
  with False show ?thesis
    by (simp add: print_ccid_functional_def index_u8_def get_at_def)
qed (simp add: print_ccid_functional_def)

lemma functional_lines_ok: "\<exists>ls. functional_lines ds = Inr ls"
proof (induction ds rule: functional_lines.induct)
  case (2 ty d ds)
  moreover obtain l where "print_ccid_functional d = Inr l" using print_ccid_functional_ok by blast
  ultimately show ?case by auto
qed simp

text \<open>C40. The decoder reads the fields where the CCID specification puts them: from any functional
  descriptor laid out with one byte of slot index and one of voltage support behind a 4-byte head,
  the protocols next, and features and maximum message length 40 and 44 bytes in, all 32-bit
  little-endian, exactly these values are printed, whatever fills the rest.\<close>

theorem ccid_functional_roundtrip:
  assumes "length head = 4" "length middle = 30"
  shows "print_ccid_functional
      (head @ [slots, volts] @ le32 protocols @ middle @ le32 features @ le32 max_len @ tail) =
    Inr (Functional_Fields slots volts protocols features max_len)"
proof -
  let ?d = "head @ [slots, volts] @ le32 protocols @ middle @ le32 features @ le32 max_len @ tail"
  have "index_u8 ?d 4 = Inr slots" "index_u8 ?d 5 = Inr volts"
    using assms by (simp_all add: index_u8_def get_at_def nth_append)
  moreover have "le32_at ?d 6 = Inr protocols"
    using le32_at_window [of "head @ [slots, volts]" 6] assms by simp
  moreover have "le32_at ?d 40 = Inr features"
    using le32_at_window [of "head @ [slots, volts] @ le32 protocols @ middle" 40] assms by simp
  moreover have "le32_at ?d 44 = Inr max_len"
    using le32_at_window [of "head @ [slots, volts] @ le32 protocols @ middle @ le32 features" 44] assms
    by simp
  ultimately show ?thesis using assms by (simp add: print_ccid_functional_def)
qed

theorem ccid_functional_roundtrip_witness:
  "print_ccid_functional ([54, 0x21, 0x10, 0x01] @ [0, 7] @ le32 3 @ replicate 30 0 @ le32 0x000400be
     @ le32 3072 @ [0, 0, 0, 0, 0, 1]) = Inr (Functional_Fields 0 7 3 0x000400be 3072)"
  by (rule ccid_functional_roundtrip) simp_all

section \<open>The listing\<close>

definition shown_alts :: "ccid_args \<Rightarrow> alt_setting list \<Rightarrow> alt_setting list" where
  "shown_alts a alts = filter (\<lambda>alt. as_class alt = CCID_CLASS \<or> ccid_all a) alts"

text \<open>The lines of one listed setting.\<close>

definition alt_lines :: "alt_setting \<Rightarrow> ccid_line list" where
  "alt_lines alt =
     Interface_Line (as_number alt) (as_class alt) (as_subclass alt) (as_protocol alt)
       (as_class alt = CCID_CLASS)
     # map ep_line (as_endpoints alt)
     @ (if as_class alt = CCID_CLASS then projr (functional_lines (as_descriptors alt)) else [])"

lemma alt_loop_spec:
  "alt_loop a info product alts header =
     Inr ((if header \<or> shown_alts a alts = [] then []
           else [Device_Header (di_vendor info) (di_product info) product])
          @ concat (map alt_lines (shown_alts a alts)))"
proof (induction alts arbitrary: header)
  case (Cons alt alts)
  obtain fs where "functional_lines (as_descriptors alt) = Inr fs" using functional_lines_ok by blast
  with Cons show ?case
    by (simp add: Let_def shown_alts_def alt_lines_def)
qed (simp add: shown_alts_def)

text \<open>The dump never panics, whatever the descriptors hold, and for a device that opens and passes
  the filter it prints the device's heading exactly once and only if some setting is listed,
  followed by the lines of the listed settings in order.\<close>

theorem device_lines_report:
  "device_lines lower a info =
     (if (case ccid_filter a of None \<Rightarrow> True
          | Some f \<Rightarrow> str_contains (lower (case di_product_string info of None \<Rightarrow> ''<unknown>'' | Some p \<Rightarrow> p)) (lower f))
      then Inr (case di_configurations info of
          None \<Rightarrow> [Cannot_Open (di_vendor info) (di_product info)
            (case di_product_string info of None \<Rightarrow> ''<unknown>'' | Some p \<Rightarrow> p)]
        | Some configs \<Rightarrow>
            (if shown_alts a (concat configs) = [] then []
             else Device_Header (di_vendor info) (di_product info)
                    (case di_product_string info of None \<Rightarrow> ''<unknown>'' | Some p \<Rightarrow> p)
                  # concat (map alt_lines (shown_alts a (concat configs)))))
      else Inr [])"
  by (auto simp: device_lines_def Let_def alt_loop_spec split: option.split)

end
