(* ===== verification/Transition.thy ===== *)
theory Transition
  imports Main
begin

text \<open>
  Transition systems and their invariants.  The relay and the MCP server are such systems; the
  locale holds the induction over their runs, with a bound that only grows along a run (the
  number of calls made so far) where an invariant needs one.
\<close>

section \<open>Reachable states\<close>

inductive reachable :: "'s \<Rightarrow> ('s \<Rightarrow> 's \<Rightarrow> bool) \<Rightarrow> 's \<Rightarrow> bool"
  for start :: 's and step :: "'s \<Rightarrow> 's \<Rightarrow> bool" where
  initial: "reachable start step start"
| follow: "reachable start step s \<Longrightarrow> step s s' \<Longrightarrow> reachable start step s'"

section \<open>Invariants\<close>

locale invariant_system =
  fixes start :: 's
    and step :: "'s \<Rightarrow> 's \<Rightarrow> bool"
    and bound :: "'s \<Rightarrow> bool"
    and inv :: "'s \<Rightarrow> bool"
  assumes inv_start: "inv start"
    and bound_back: "step s s' \<Longrightarrow> bound s' \<Longrightarrow> bound s"
    and inv_step: "step s s' \<Longrightarrow> bound s \<Longrightarrow> inv s \<Longrightarrow> inv s'"
begin

lemma reachable_inv: "reachable start step s \<Longrightarrow> bound s \<Longrightarrow> inv s"
proof (induction rule: reachable.induct)
  case initial
  show ?case by (rule inv_start)
next
  case (follow s s')
  have b: "bound s" by (rule bound_back [OF follow.hyps(2) follow.prems])
  show ?case by (rule inv_step [OF follow.hyps(2) b follow.IH [OF b]])
qed

end

text \<open>An invariant that holds without a bound.\<close>

locale plain_invariant =
  fixes start :: 's
    and step :: "'s \<Rightarrow> 's \<Rightarrow> bool"
    and inv :: "'s \<Rightarrow> bool"
  assumes plain_start: "inv start"
    and plain_step: "step s s' \<Longrightarrow> inv s \<Longrightarrow> inv s'"

sublocale plain_invariant \<subseteq> plain: invariant_system start step "\<lambda>_. True" inv
  by unfold_locales (rule plain_start, simp, rule plain_step)

end
