(* ===== verification/Relay.thy ===== *)
theory Relay
  imports Lab_Prelude Transition "HOL-Library.Sublist"
begin

text \<open>
  The relay (\<^verbatim>\<open>relay/src/lib.rs\<close>): the accept loop, which dials the device for every
  backend and spawns a task per link, and the links.  The tasks run concurrently, so the program
  is a transition system in which accepts and the steps of all links interleave.  The copying
  itself is \<open>tokio::io::copy_bidirectional\<close> and a parameter.
\<close>

section \<open>State\<close>

text \<open>A link, with what was read from and written to each side, and how it ended.\<close>

datatype link_end = Running | Link_Closed nat nat | Link_Error

record link =
  who :: string
  up_read :: bytes
  up_written :: bytes
  down_read :: bytes
  down_written :: bytes
  link_end :: link_end

type_synonym relay_state = "link list"

definition new_link :: "string \<Rightarrow> link" where
  "new_link addr = \<lparr>who = addr, up_read = [], up_written = [], down_read = [], down_written = [],
     link_end = Running\<rparr>"

text \<open>What one turn of the accept loop meets.\<close>

datatype accept_outcome =
    Accept_Error
  | Accepted_No_Device string
  | Accepted_Linked string

fun accept_turn :: "accept_outcome \<Rightarrow> relay_state \<Rightarrow> relay_state" where
  "accept_turn Accept_Error s = s"
| "accept_turn (Accepted_No_Device addr) s = s"
| "accept_turn (Accepted_Linked addr) s = s @ [new_link addr]"

section \<open>Behaviour\<close>

text \<open>
  \<open>copy l l'\<close>: one step of \<open>copy_bidirectional\<close> on a running link, its return included.
\<close>

inductive relay_step :: "(link \<Rightarrow> link \<Rightarrow> bool) \<Rightarrow> relay_state \<Rightarrow> relay_state \<Rightarrow> bool"
  for copy :: "link \<Rightarrow> link \<Rightarrow> bool" where
  accept: "relay_step copy s (accept_turn outcome s)"
| forward: "i < length s \<Longrightarrow> link_end (s ! i) = Running \<Longrightarrow> copy (s ! i) l \<Longrightarrow> relay_step copy s (s[i := l])"

abbreviation relay_reachable :: "(link \<Rightarrow> link \<Rightarrow> bool) \<Rightarrow> relay_state \<Rightarrow> bool" where
  "relay_reachable copy \<equiv> reachable [] (relay_step copy)"

lemmas relay_initial = reachable.initial [where start = "[] :: relay_state" and step = "relay_step copy"] for copy
lemmas relay_follow = reachable.follow [where start = "[] :: relay_state" and step = "relay_step copy"] for copy


text \<open>
  The documented behaviour of the copy: it writes to each side what it read from the other, in
  order, and reports the numbers of bytes it wrote when it returns.
\<close>

definition forwards :: "link \<Rightarrow> bool" where
  "forwards l \<longleftrightarrow> prefix (up_written l) (up_read l) \<and> prefix (down_written l) (down_read l)
     \<and> (\<forall>m n. link_end l = Link_Closed m n \<longrightarrow> m = length (up_written l) \<and> n = length (down_written l))"


lemma forwards_new [simp]: "forwards (new_link addr)"
  by (simp add: forwards_def new_link_def)








text \<open>Links are served concurrently and without a bound: whatever the copying does, for every
  number \<open>n\<close> the relay can have \<open>n\<close> links running at the same time, none of which has
  moved a byte yet.\<close>

theorem relay_links_unbounded:
  "\<exists>s. relay_reachable copy s \<and> length s = n \<and> list_all (\<lambda>l. link_end l = Running) s"
proof (induction n)
  case 0
  then show ?case using relay_initial by auto
next
  case (Suc n)
  then obtain s where "relay_reachable copy s" "length s = n" "list_all (\<lambda>l. link_end l = Running) s"
    by blast
  moreover from this(1) have "relay_reachable copy (s @ [new_link ''backend''])"
    using relay_follow [OF _ relay_step.accept [of copy s "Accepted_Linked ''backend''"]] by simp
  ultimately show ?case
    by (intro exI [of _ "s @ [new_link ''backend'']"]) (simp add: new_link_def)
qed

end
