(* ===== verification/Backend_Events.thy ===== *)
theory Backend_Events
  imports Rust_Str Complex_Main
begin

text \<open>
  What the backend tells the world about itself (\<^verbatim>\<open>backend/src/mcp.rs\<close>,
  \<open>BackendEvent\<close>): the events, the status they carry, and their JSON form.  JSON objects
  are association lists in the order of the source.  A finite \<open>f64\<close> is the rational it
  stands for; rounding is not modelled.
\<close>

section \<open>JSON\<close>

datatype f64 = Finite rat | Infinite | Not_A_Number

text \<open>Division of a non-negative number by a non-negative one.\<close>

fun f64_div :: "f64 \<Rightarrow> f64 \<Rightarrow> f64" where
  "f64_div (Finite a) (Finite b) =
     (if b = 0 then (if a = 0 then Not_A_Number else Infinite) else Finite (a / b))"
| "f64_div (Finite a) Infinite = Finite 0"
| "f64_div Infinite (Finite b) = Infinite"
| "f64_div _ _ = Not_A_Number"

datatype json =
    JNull
  | JBool bool
  | JInt int
  | JFloat rat
  | JStr string
  | JArr "json list"
  | JObj "(string \<times> json) list"

text \<open>\<open>json!\<close> of a float: a number when it is finite, else \<open>null\<close>.\<close>

fun json_f64 :: "f64 \<Rightarrow> json" where
  "json_f64 (Finite x) = JFloat x"
| "json_f64 _ = JNull"

text \<open>\<open>Value::get\<close> with a key, and the typed views.\<close>

fun jget :: "string \<Rightarrow> json \<Rightarrow> json option" where
  "jget k (JObj kvs) = map_of kvs k"
| "jget k _ = None"

fun as_str :: "json \<Rightarrow> string option" where
  "as_str (JStr s) = Some s"
| "as_str _ = None"

fun as_i64 :: "json \<Rightarrow> int option" where
  "as_i64 (JInt i) = (if - (2 ^ 63) \<le> i \<and> i < 2 ^ 63 then Some i else None)"
| "as_i64 _ = None"

fun as_u64 :: "json \<Rightarrow> nat option" where
  "as_u64 (JInt i) = (if 0 \<le> i \<and> i < 2 ^ 64 then Some (nat i) else None)"
| "as_u64 _ = None"

lemma as_u64_bound: "as_u64 j = Some n \<Longrightarrow> n < 2 ^ 64"
  by (cases j) (auto split: if_splits)

section \<open>Events\<close>

text \<open>The statuses the backend names, and the others by their debug name.\<close>

datatype peer_status = Connected | Initiator | Other_Status string

definition status_name :: "peer_status \<Rightarrow> string" where
  "status_name st = (case st of Connected \<Rightarrow> ''Connected'' | Initiator \<Rightarrow> ''Initiator'' | Other_Status n \<Rightarrow> n)"

datatype backend_event =
    Chat_Received string
  | Chat_Pushed string
  | Echo_Handled string string nat
  | Status_Changed (sc_state: peer_status) (sc_bt_connected: bool) (sc_peer_known: bool)
  | Benchmark_Completed nat f64
  | Download_Completed nat f64 string

fun to_json :: "backend_event \<Rightarrow> json" where
  "to_json (Chat_Received text) = JObj [(''event'', JStr ''chat.received''), (''text'', JStr text)]"
| "to_json (Chat_Pushed text) = JObj [(''event'', JStr ''chat.pushed''), (''text'', JStr text)]"
| "to_json (Echo_Handled request response ms) = JObj
     [(''event'', JStr ''echo.handled''), (''request'', JStr request), (''response'', JStr response),
      (''ms'', JInt (int ms))]"
| "to_json (Status_Changed st bt_connected peer_known) = JObj
     [(''event'', JStr ''session.status_changed''), (''state'', JStr (status_name st)),
      (''bt_connected'', JBool bt_connected), (''peer_known'', JBool peer_known)]"
| "to_json (Benchmark_Completed n secs) = JObj
     [(''event'', JStr ''benchmark.completed''), (''bytes'', JInt (int n)), (''secs'', json_f64 secs),
      (''kibs'', json_f64 (f64_div (Finite (of_nat n / 1024)) secs))]"
| "to_json (Download_Completed n secs sha256_hex) = JObj
     [(''event'', JStr ''download.completed''), (''bytes'', JInt (int n)), (''secs'', json_f64 secs),
      (''sha256'', JStr sha256_hex)]"

text \<open>The \<open>event\<close> member tells the kinds apart.\<close>

definition event_tag :: "backend_event \<Rightarrow> string" where
  "event_tag e = (case e of
     Chat_Received _ \<Rightarrow> ''chat.received'' | Chat_Pushed _ \<Rightarrow> ''chat.pushed''
   | Echo_Handled _ _ _ \<Rightarrow> ''echo.handled'' | Status_Changed _ _ _ \<Rightarrow> ''session.status_changed''
   | Benchmark_Completed _ _ \<Rightarrow> ''benchmark.completed''
   | Download_Completed _ _ _ \<Rightarrow> ''download.completed'')"

lemma to_json_tag: "jget ''event'' (to_json e) = Some (JStr (event_tag e))"
  by (cases e) (simp_all add: event_tag_def)

end
