(* ===== verification/Mcp_State.thy ===== *)
theory Mcp_State
  imports Backend_Events
begin

text \<open>
  The rolling chat history and the status snapshot of the MCP server
  (\<^verbatim>\<open>backend/src/mcp.rs\<close>, \<open>record_chat\<close> and \<open>run_event_recorder\<close>), and the two
  other tasks that listen to the broadcast channel: the SSE forwarder and the auto-reply loop.
  The bounded log is an interface of its own: what a client sees of any log that keeps the last
  entries is proved once and interpreted for the history.
\<close>

section \<open>Logs that keep the last entries\<close>

definition take_last :: "nat \<Rightarrow> 'a list \<Rightarrow> 'a list" where
  "take_last n xs = drop (length xs - n) xs"

lemma length_take_last [simp]: "length (take_last n xs) = min n (length xs)"
  by (auto simp: take_last_def)

lemma take_last_all [simp]: "length xs \<le> n \<Longrightarrow> take_last n xs = xs"
  by (simp add: take_last_def)

lemma take_last_take_last: "take_last n (take_last n xs @ ys) = take_last n (xs @ ys)"
  by (cases "length xs \<le> n") (auto simp: take_last_def add.commute)

lemma take_last_min: "m \<le> n \<Longrightarrow> take_last m (take_last n xs) = take_last m xs"
  by (cases "length xs \<le> n") (auto simp: take_last_def)

locale bounded_log =
  fixes push :: "'a \<Rightarrow> 'l \<Rightarrow> 'l"
    and contents :: "'l \<Rightarrow> 'a list"
    and cap :: nat
  assumes contents_push: "contents (push a l) = take_last cap (contents l @ [a])"
begin

lemma length_push: "length (contents (push a l)) \<le> cap"
  by (simp add: contents_push)

lemma contents_fold: "length (contents l) \<le> cap \<Longrightarrow>
   contents (fold push as l) = take_last cap (contents l @ as)"
proof (induction as arbitrary: l)
  case (Cons a as)
  from Cons.IH [of "push a l"] length_push [of a l] show ?case
    by (simp add: contents_push take_last_take_last)
qed simp

lemma newest_kept: "0 < cap \<Longrightarrow> last (contents (push a l)) = a"
  by (cases "length (contents l) < cap") (auto simp: contents_push take_last_def)

end

section \<open>State\<close>

definition CHAT_HISTORY_LIMIT :: nat where "CHAT_HISTORY_LIMIT = 512"

datatype chat_direction = Device_To_Backend | Backend_To_Device

record chat_entry =
  ce_direction :: chat_direction
  ce_text :: string

record status_snapshot =
  peer_status_of :: "peer_status option"
  bt_connected :: bool
  peer_known :: bool

record mcp_view =
  history :: "chat_entry list"
  snapshot :: status_snapshot

definition mcp_view_start :: mcp_view where
  "mcp_view_start = \<lparr>history = [],
     snapshot = \<lparr>peer_status_of = None, bt_connected = False, peer_known = False\<rparr>\<rparr>"

text \<open>Append one entry, then drop from the front what is over the limit.\<close>

definition record_chat :: "chat_entry \<Rightarrow> mcp_view \<Rightarrow> mcp_view" where
  "record_chat e v =
     (let h = history v @ [e]; len = length h in
      v\<lparr>history := (if len > CHAT_HISTORY_LIMIT then drop (len - CHAT_HISTORY_LIMIT) h else h)\<rparr>)"

interpretation chat_log: bounded_log record_chat history CHAT_HISTORY_LIMIT
  by unfold_locales (simp add: record_chat_def take_last_def Let_def)

section \<open>The recorder\<close>

text \<open>What \<open>recv\<close> on a broadcast receiver returns.\<close>

datatype broadcast_recv = Received backend_event | Lagged nat | Channel_Gone

fun record_event :: "backend_event \<Rightarrow> mcp_view \<Rightarrow> mcp_view" where
  "record_event (Chat_Received text) v = record_chat \<lparr>ce_direction = Device_To_Backend, ce_text = text\<rparr> v"
| "record_event (Chat_Pushed text) v = record_chat \<lparr>ce_direction = Backend_To_Device, ce_text = text\<rparr> v"
| "record_event (Status_Changed st bt known) v =
     v\<lparr>snapshot := \<lparr>peer_status_of = Some st, bt_connected = bt, peer_known = known\<rparr>\<rparr>"
| "record_event _ v = v"

text \<open>\<open>while let Ok(event)\<close>: the first \<open>recv\<close> that is not an event ends the task.\<close>

fun event_recorder :: "broadcast_recv list \<Rightarrow> mcp_view \<Rightarrow> mcp_view" where
  "event_recorder (Received e # rs) v = event_recorder rs (record_event e v)"
| "event_recorder _ v = v"

section \<open>Forwarder and auto-reply\<close>

text \<open>The payload a session's forwarder sends for an event.\<close>

definition notification_payload :: "backend_event \<Rightarrow> json" where
  "notification_payload e = JObj [(''jsonrpc'', JStr ''2.0''), (''method'', JStr ''notifications/message''),
     (''params'', JObj [(''level'', JStr ''info''), (''data'', to_json e)])]"

text \<open>\<open>accepts n\<close> says whether the SSE channel takes the \<open>n\<close>-th payload.\<close>

fun forwarder :: "(nat \<Rightarrow> bool) \<Rightarrow> broadcast_recv list \<Rightarrow> json list \<Rightarrow> json list" where
  "forwarder accepts (Received e # rs) sent =
     (if accepts (length sent) then forwarder accepts rs (sent @ [notification_payload e]) else sent)"
| "forwarder accepts _ sent = sent"

definition auto_reply_system_prompt :: string where
  "auto_reply_system_prompt =
     ''You are an AI assistant chatting with a KeyOS Passport Prime hardware wallet user. '' @
     ''Keep replies short (one or two sentences), warm, and informational. '' @
     ''You are bridged via QL v2 '' @ [CHR 0xe2, CHR 0x86, CHR 0x92] @ '' relay '' @
     [CHR 0xe2, CHR 0x86, CHR 0x92] @ '' foundation-lab backend '' @
     [CHR 0xe2, CHR 0x86, CHR 0x92] @ '' MCP sampling.''"

text \<open>
  The auto-reply loop, with the outcome of sampling and of the push to the device as functions:
  the replies pushed and the events emitted for them.
\<close>

fun auto_reply ::
    "(string \<Rightarrow> string \<Rightarrow> nat \<Rightarrow> (string, string) result) \<Rightarrow> (string \<Rightarrow> bool) \<Rightarrow> broadcast_recv list
       \<Rightarrow> string list \<times> backend_event list" where
  "auto_reply sample push (Received e # rs) =
     (case e of
        Chat_Received text \<Rightarrow>
          (case sample text auto_reply_system_prompt 200 of
             Inr reply \<Rightarrow>
               (case auto_reply sample push rs of (pushed, events) \<Rightarrow>
                  if push reply then (reply # pushed, Chat_Pushed reply # events) else (pushed, events))
           | Inl _ \<Rightarrow> auto_reply sample push rs)
      | _ \<Rightarrow> auto_reply sample push rs)"
| "auto_reply sample push _ = ([], [])"

section \<open>What is recorded\<close>

text \<open>The chat entries and the last status of a run of events.\<close>

fun chat_of :: "backend_event \<Rightarrow> chat_entry list" where
  "chat_of (Chat_Received text) = [\<lparr>ce_direction = Device_To_Backend, ce_text = text\<rparr>]"
| "chat_of (Chat_Pushed text) = [\<lparr>ce_direction = Backend_To_Device, ce_text = text\<rparr>]"
| "chat_of _ = []"

fun status_of :: "backend_event \<Rightarrow> status_snapshot option" where
  "status_of (Status_Changed st bt known) =
     Some \<lparr>peer_status_of = Some st, bt_connected = bt, peer_known = known\<rparr>"
| "status_of _ = None"

definition last_status :: "backend_event list \<Rightarrow> status_snapshot \<Rightarrow> status_snapshot" where
  "last_status es s0 = fold (\<lambda>e s. case status_of e of None \<Rightarrow> s | Some s' \<Rightarrow> s') es s0"

lemma snapshot_record_chat [simp]: "snapshot (record_chat e v) = snapshot v"
  by (simp add: record_chat_def Let_def)

lemma record_event_view:
  "history (record_event e v) = history (fold record_chat (chat_of e) v)"
  "snapshot (record_event e v) = (case status_of e of None \<Rightarrow> snapshot v | Some s \<Rightarrow> s)"
  by (cases e; simp)+

text \<open>The recorder's view of a run: the events before the first \<open>recv\<close> that fails.\<close>

fun heard :: "broadcast_recv list \<Rightarrow> backend_event list" where
  "heard (Received e # rs) = e # heard rs"
| "heard _ = []"

lemma event_recorder_heard: "event_recorder rs v = fold record_event (heard rs) v"
  by (induction rs v rule: event_recorder.induct) simp_all

lemma fold_record_event:
  assumes "length (history v) \<le> CHAT_HISTORY_LIMIT"
  shows "history (fold record_event es v) = take_last CHAT_HISTORY_LIMIT (history v @ concat (map chat_of es))
    \<and> snapshot (fold record_event es v) = last_status es (snapshot v)"
  using assms
proof (induction es arbitrary: v)
  case Nil
  then show ?case by (simp add: last_status_def)
next
  case (Cons e es)
  have h: "history (record_event e v) = take_last CHAT_HISTORY_LIMIT (history v @ chat_of e)"
    using chat_log.contents_fold [OF Cons.prems] by (simp add: record_event_view)
  then have "length (history (record_event e v)) \<le> CHAT_HISTORY_LIMIT" by simp
  from Cons.IH [OF this] show ?case
    by (simp add: h take_last_take_last record_event_view(2) last_status_def)
qed

lemma heard_Received [simp]:
  "heard (map Received es @ rs) = es @ heard rs"
  "heard (map Received es) = es"
  by (induction es) simp_all

text \<open>A recorder that keeps up, from the start.\<close>

lemma recorder_view:
  "history (event_recorder (map Received es) mcp_view_start) = take_last 512 (concat (map chat_of es))"
  "snapshot (event_recorder (map Received es) mcp_view_start) = last_status es (snapshot mcp_view_start)"
  using fold_record_event [of mcp_view_start es]
  by (simp_all add: event_recorder_heard mcp_view_start_def CHAT_HISTORY_LIMIT_def)

section \<open>Properties\<close>

text \<open>The recorder keeps what it promises while its receiver keeps up: after any events the
  history is the last 512 chat lines of both directions in the order they happened, and the
  snapshot is that of the last status change; but the first \<open>recv\<close> that reports a lag, like one
  that reports the end, stops it for good, and whatever follows is not recorded.\<close>

theorem recorder_history:
  "history (event_recorder (map Received es @ rs) mcp_view_start) =
      take_last 512 (concat (map chat_of (es @ heard rs)))
    \<and> snapshot (event_recorder (map Received es @ rs) mcp_view_start) =
        last_status (es @ heard rs) (snapshot mcp_view_start)
    \<and> event_recorder (map Received es @ Lagged n # rs) mcp_view_start =
        event_recorder (map Received es) mcp_view_start"
  using fold_record_event [of mcp_view_start "es @ heard rs"]
  by (simp add: event_recorder_heard mcp_view_start_def CHAT_HISTORY_LIMIT_def)

text \<open>The notifications of a session are the events in order, up to the first lag.\<close>

lemma forwarder_heard:
  "(\<And>n. accepts n) \<Longrightarrow> forwarder accepts rs sent = sent @ map notification_payload (heard rs)"
  by (induction accepts rs sent rule: forwarder.induct) simp_all

text \<open>Like the recorder, a forwarder never gets over its first lag.\<close>

lemma forwarder_lagged:
  "forwarder accepts (map Received es @ Lagged n # rs) sent = forwarder accepts (map Received es) sent"
  by (induction es arbitrary: sent) simp_all

text \<open>Every reply the auto-reply loop pushes is announced by one event, and only chats trigger one.\<close>

lemma auto_reply_events: "snd (auto_reply sample push rs) = map Chat_Pushed (fst (auto_reply sample push rs))"
  by (induction sample push rs rule: auto_reply.induct)
    (auto split: backend_event.splits sum.splits prod.splits)

text \<open>The reply to one event, if there is one and it reaches the device.\<close>

definition reply_to :: "(string \<Rightarrow> string \<Rightarrow> nat \<Rightarrow> (string, string) result) \<Rightarrow> (string \<Rightarrow> bool) \<Rightarrow> backend_event \<Rightarrow> string list"
where
  "reply_to sample push e = (case e of
     Chat_Received t \<Rightarrow> (case sample t auto_reply_system_prompt 200 of
        Inr reply \<Rightarrow> if push reply then [reply] else [] | Inl _ \<Rightarrow> [])
   | _ \<Rightarrow> [])"

lemma auto_reply_pushes: "fst (auto_reply sample push rs) = concat (map (reply_to sample push) (heard rs))"
  by (induction sample push rs rule: auto_reply.induct)
    (auto simp: reply_to_def split: backend_event.splits sum.splits prod.splits)

text \<open>C32. The auto-reply answers the device and never itself: it pushes, in order, one reply for each chat
  line of the device for which sampling and the push succeed, and nothing for any other event; each
  reply is announced by one event; and the events it announces, heard again, trigger nothing, so
  that the loop cannot feed itself.\<close>

theorem auto_reply_no_loop:
  "fst (auto_reply sample push rs) = concat (map (reply_to sample push) (heard rs))
    \<and> snd (auto_reply sample push rs) = map Chat_Pushed (fst (auto_reply sample push rs))
    \<and> auto_reply sample push (map Received (snd (auto_reply sample push rs))) = ([], [])"
proof -
  have "reply_to sample push (Chat_Pushed t) = []" for t by (simp add: reply_to_def)
  then have quiet: "fst (auto_reply sample push (map Received (map Chat_Pushed ts))) = []" for ts
    by (simp add: auto_reply_pushes del: map_map)
  then have "snd (auto_reply sample push (map Received (map Chat_Pushed ts))) = []" for ts
    by (simp only: auto_reply_events list.map)
  with quiet have "auto_reply sample push (map Received (map Chat_Pushed ts)) = ([], [])" for ts
    by (simp only: prod_eq_iff fst_conv snd_conv)
  then show ?thesis
    unfolding auto_reply_events by (intro conjI auto_reply_pushes refl)
qed

end
