(* ===== verification/Mcp_Broadcast.thy ===== *)
theory Mcp_Broadcast
  imports Mcp_State Transition
begin

text \<open>
  The event broadcast and its recorder as tasks that interleave (\<^verbatim>\<open>backend/src/lib.rs\<close>, the
  channel that \<open>run\<close> makes, and \<open>run_event_recorder\<close> of \<^verbatim>\<open>backend/src/mcp.rs\<close>):
  publishers add events at any time, the recorder subscribes at some point and then takes one event
  after the other.  The channel behaves as its library documents: a receiver hears what is sent
  after it has subscribed, in order, and one that is more than the capacity behind is told so.
\<close>

section \<open>State and steps\<close>

definition EVENT_CAPACITY :: nat where "EVENT_CAPACITY = 256"

text \<open>The recorder's receiver: where it subscribed and how far it has come in all that was sent.\<close>

datatype receiver_state = Unsubscribed | Listening nat nat | Ended

record bus =
  published :: "backend_event list"
  recorder :: receiver_state
  rec_view :: mcp_view

definition bus_start :: bus where
  "bus_start = \<lparr>published = [], recorder = Unsubscribed, rec_view = mcp_view_start\<rparr>"

text \<open>What \<open>recv\<close> returns at a position; \<open>None\<close> while it waits.\<close>

definition bus_recv :: "backend_event list \<Rightarrow> nat \<Rightarrow> broadcast_recv option" where
  "bus_recv sent p =
     (if p + EVENT_CAPACITY < length sent then Some (Lagged (length sent - EVENT_CAPACITY - p))
      else if p < length sent then Some (Received (sent ! p))
      else None)"

text \<open>One turn of \<open>while let Ok(event) = rx.recv().await\<close>.\<close>

definition recorder_turn :: "nat \<Rightarrow> nat \<Rightarrow> broadcast_recv \<Rightarrow> bus \<Rightarrow> bus" where
  "recorder_turn a p r s = (case r of
     Received e \<Rightarrow> s\<lparr>recorder := Listening a (p + 1), rec_view := record_event e (rec_view s)\<rparr>
   | _ \<Rightarrow> s\<lparr>recorder := Ended\<rparr>)"

inductive bus_step :: "bus \<Rightarrow> bus \<Rightarrow> bool" where
  publish: "bus_step s (s\<lparr>published := published s @ [e]\<rparr>)"
| subscribe: "recorder s = Unsubscribed \<Longrightarrow>
     bus_step s (s\<lparr>recorder := Listening (length (published s)) (length (published s))\<rparr>)"
| receive: "recorder s = Listening a p \<Longrightarrow> bus_recv (published s) p = Some r \<Longrightarrow>
     bus_step s (recorder_turn a p r s)"

inductive_cases bus_stepE: "bus_step s s'"

abbreviation bus_reachable :: "bus \<Rightarrow> bool" where
  "bus_reachable \<equiv> reachable bus_start bus_step"

lemmas bus_initial = reachable.initial [where start = bus_start and step = bus_step]
lemmas bus_follow = reachable.follow [where start = bus_start and step = bus_step]

section \<open>What the recorder has heard\<close>

text \<open>The events between two positions.\<close>

definition between :: "nat \<Rightarrow> nat \<Rightarrow> 'a list \<Rightarrow> 'a list" where
  "between a p xs = take (p - a) (drop a xs)"

lemma between_same [simp]: "between a a xs = []"
  by (simp add: between_def)

lemma between_append [simp]: "p \<le> length xs \<Longrightarrow> between a p (xs @ ys) = between a p xs"
  by (simp add: between_def)

lemma between_step: "a \<le> p \<Longrightarrow> p < length xs \<Longrightarrow> between a (Suc p) xs = between a p xs @ [xs ! p]"
  by (simp add: between_def Suc_diff_le take_Suc_conv_app_nth)

definition heard_upto :: "nat \<Rightarrow> nat \<Rightarrow> bus \<Rightarrow> bool" where
  "heard_upto a p s \<longleftrightarrow> a \<le> p \<and> p \<le> length (published s)
     \<and> rec_view s = fold record_event (between a p (published s)) mcp_view_start"

definition bus_inv :: "bus \<Rightarrow> bool" where
  "bus_inv s = (case recorder s of
     Unsubscribed \<Rightarrow> rec_view s = mcp_view_start
   | Listening a p \<Rightarrow> heard_upto a p s
   | Ended \<Rightarrow> \<exists>a p. heard_upto a p s \<and> p + EVENT_CAPACITY < length (published s))"

lemma heard_upto_publish: "heard_upto a p s \<Longrightarrow> heard_upto a p (s\<lparr>published := published s @ [e]\<rparr>)"
  by (simp add: heard_upto_def)

lemma bus_step_inv:
  assumes "bus_step s s'" "bus_inv s"
  shows "bus_inv s'"
  using assms(1)
proof cases
  case (publish e)
  with assms(2) heard_upto_publish [of _ _ s e] show ?thesis
    by (fastforce simp: bus_inv_def split: receiver_state.splits)
next
  case subscribe
  with assms(2) show ?thesis by (simp add: bus_inv_def heard_upto_def)
next
  case (receive a p r)
  from assms(2) receive(2) have heard: "heard_upto a p s" by (simp add: bus_inv_def)
  show ?thesis
  proof (cases "p + EVENT_CAPACITY < length (published s)")
    case True
    with receive have "s' = s\<lparr>recorder := Ended\<rparr>" by (auto simp: bus_recv_def recorder_turn_def)
    moreover have "heard_upto a p (s\<lparr>recorder := Ended\<rparr>)" using heard by (simp add: heard_upto_def)
    ultimately show ?thesis using True by (auto simp: bus_inv_def)
  next
    case False
    with receive heard show ?thesis
      by (auto simp: bus_inv_def bus_recv_def recorder_turn_def heard_upto_def between_step split: if_splits)
  qed
qed

interpretation event_bus: plain_invariant bus_start bus_step bus_inv
  by unfold_locales (simp add: bus_inv_def bus_start_def, rule bus_step_inv)

lemma bus_reachable_inv: "bus_reachable s \<Longrightarrow> bus_inv s"
  by (rule event_bus.plain.reachable_inv) simp_all

lemma listening_view:
  assumes "bus_reachable s" "recorder s = Listening a p"
  shows "heard_upto a p s"
  using bus_reachable_inv [OF assms(1)] assms(2) by (simp add: bus_inv_def)

lemma heard_view:
  assumes "heard_upto a p s"
  shows "history (rec_view s) = take_last 512 (concat (map chat_of (between a p (published s))))"
    "snapshot (rec_view s) = last_status (between a p (published s)) (snapshot mcp_view_start)"
  using assms recorder_view [of "between a p (published s)"]
  by (simp_all add: heard_upto_def event_recorder_heard)

text \<open>Left alone, a recorder that is not too far behind hears everything.\<close>

lemma recorder_catches_up:
  assumes "bus_reachable s" "recorder s = Listening a p" "length (published s) \<le> p + EVENT_CAPACITY"
  shows "\<exists>s'. bus_reachable s' \<and> published s' = published s \<and> recorder s' = Listening a (length (published s))"
  using assms
proof (induction "length (published s) - p" arbitrary: s p)
  case 0
  then have "p = length (published s)" using listening_view [OF 0(2,3)] by (simp add: heard_upto_def)
  with 0 show ?case by blast
next
  case (Suc n)
  then have recv: "bus_recv (published s) p = Some (Received (published s ! p))"
    by (simp add: bus_recv_def)
  let ?s = "recorder_turn a p (Received (published s ! p)) s"
  have "bus_reachable ?s" by (rule bus_follow [OF Suc.prems(1) bus_step.receive [OF Suc.prems(2) recv]])
  with Suc.hyps(1) [of ?s "Suc p"] Suc.hyps(2) Suc.prems(3) show ?case
    by (simp add: recorder_turn_def)
qed

section \<open>Properties\<close>

text \<open>C17. The recorder is as good as its place in the broadcast: however publishing and receiving
  interleave, while it listens its history is the last 512 chat lines, and its status the last one,
  of what was published from its subscription to its position; while it is no more than 256 events
  behind it can hear all of them; but once it has been further behind it has ended, and no later
  event ever changes what it shows.\<close>

theorem recorder_follows_bus:
  assumes "bus_reachable s"
  shows "(\<forall>a p. recorder s = Listening a p \<longrightarrow> a \<le> p \<and> p \<le> length (published s)
      \<and> history (rec_view s) = take_last 512 (concat (map chat_of (between a p (published s))))
      \<and> snapshot (rec_view s) = last_status (between a p (published s)) (snapshot mcp_view_start)
      \<and> (length (published s) \<le> p + 256 \<longrightarrow> (\<exists>s'. bus_reachable s' \<and> published s' = published s
           \<and> recorder s' = Listening a (length (published s)))))
    \<and> (recorder s = Ended \<longrightarrow> 256 < length (published s)
      \<and> (\<forall>s'. bus_step s s' \<longrightarrow> recorder s' = Ended \<and> rec_view s' = rec_view s))"
proof -
  have "a \<le> p \<and> p \<le> length (published s)
      \<and> history (rec_view s) = take_last 512 (concat (map chat_of (between a p (published s))))
      \<and> snapshot (rec_view s) = last_status (between a p (published s)) (snapshot mcp_view_start)
      \<and> (length (published s) \<le> p + 256 \<longrightarrow> (\<exists>s'. bus_reachable s' \<and> published s' = published s
           \<and> recorder s' = Listening a (length (published s))))"
    if "recorder s = Listening a p" for a p
    using listening_view [OF assms that] heard_view recorder_catches_up [OF assms that]
    by (simp add: heard_upto_def EVENT_CAPACITY_def)
  moreover have "256 < length (published s)" if "recorder s = Ended"
    using bus_reachable_inv [OF assms] that by (auto simp: bus_inv_def EVENT_CAPACITY_def)
  moreover have "recorder s' = Ended \<and> rec_view s' = rec_view s" if "recorder s = Ended" "bus_step s s'" for s'
    using that(2,1) by cases auto
  ultimately show ?thesis by blast
qed

text \<open>A status before the recorder subscribes, a chat afterwards.\<close>

definition one_chat :: bus where
  "one_chat = \<lparr>published = [Status_Changed Connected True True, Chat_Received ''hi''], recorder = Listening 1 2,
     rec_view = record_event (Chat_Received ''hi'') mcp_view_start\<rparr>"

lemma one_chat_reachable: "bus_reachable one_chat"
proof -
  let ?st = "Status_Changed Connected True True"
  have "bus_reachable (bus_start\<lparr>published := [?st]\<rparr>)"
    using bus_follow [OF bus_initial bus_step.publish, of ?st] by (simp add: bus_start_def)
  from bus_follow [OF this bus_step.subscribe]
  have "bus_reachable (bus_start\<lparr>published := [?st], recorder := Listening 1 1\<rparr>)"
    by (simp add: bus_start_def)
  from bus_follow [OF this bus_step.publish, of "Chat_Received ''hi''"]
  have "bus_reachable (bus_start\<lparr>published := [?st, Chat_Received ''hi''], recorder := Listening 1 1\<rparr>)"
    by (simp add: bus_start_def)
  from bus_follow [OF this bus_step.receive [of _ 1 1 "Received (Chat_Received ''hi'')"]]
  show ?thesis
    by (simp add: bus_start_def bus_recv_def recorder_turn_def one_chat_def EVENT_CAPACITY_def
        numeral_2_eq_2)
qed

theorem recorder_follows_bus_witness:
  "history (rec_view one_chat) = [\<lparr>ce_direction = Device_To_Backend, ce_text = ''hi''\<rparr>]
    \<and> peer_status_of (snapshot (rec_view one_chat)) = None"
proof -
  have "recorder one_chat = Listening 1 2" "published one_chat = [Status_Changed Connected True True, Chat_Received ''hi'']"
    by (simp_all add: one_chat_def)
  with recorder_follows_bus [OF one_chat_reachable] show ?thesis
    by (simp add: between_def last_status_def mcp_view_start_def)
qed

end
