(* ===== verification/Backend_Session.thy ===== *)
theory Backend_Session
  imports Backend_Events
begin

text \<open>
  How the backend starts (\<^verbatim>\<open>backend/src/lib.rs\<close>): its command line, the state file, the
  pairing invite, the small pieces of the runtime platform, and \<open>run\<close> up to the point where
  the session stands: fresh XX pairing or IK reconnect, with everything that makes it give up.
  The QL libraries, \<open>hex\<close> and the network are parameters; the files are a map.
\<close>

section \<open>Command line\<close>

definition DEFAULT_PEER :: string where "DEFAULT_PEER = ''127.0.0.1:8766''"
definition DEFAULT_MCP_ADDR :: string where "DEFAULT_MCP_ADDR = ''127.0.0.1:8780''"
definition DEFAULT_STATE :: string where "DEFAULT_STATE = ''/tmp/foundation-lab-peer.state''"

record backend_config =
  cfg_peer :: string
  cfg_token :: "string option"
  cfg_bench_len :: u32
  cfg_state :: string
  cfg_serve :: bool
  cfg_fresh :: bool
  cfg_mcp :: "string option"
  cfg_auto_reply :: bool

definition default_config :: backend_config where
  "default_config = \<lparr>cfg_peer = DEFAULT_PEER, cfg_token = None, cfg_bench_len = 256 * 1024,
     cfg_state = DEFAULT_STATE, cfg_serve = False, cfg_fresh = False, cfg_mcp = None,
     cfg_auto_reply = False\<rparr>"

datatype arg_panic = Missing_Value string | Bad_Bench_Bytes | Unknown_Arg string

fun parse_args :: "string list \<Rightarrow> backend_config \<Rightarrow> (arg_panic, backend_config) result" where
  "parse_args [] cfg = Inr cfg"
| "parse_args (arg # args) cfg =
     (if arg = ''--connect-to'' then
        (case args of [] \<Rightarrow> Inl (Missing_Value arg) | v # args' \<Rightarrow> parse_args args' (cfg\<lparr>cfg_peer := v\<rparr>))
      else if arg = ''--token'' then
        (case args of [] \<Rightarrow> Inl (Missing_Value arg) | v # args' \<Rightarrow> parse_args args' (cfg\<lparr>cfg_token := Some v\<rparr>))
      else if arg = ''--state'' then
        (case args of [] \<Rightarrow> Inl (Missing_Value arg) | v # args' \<Rightarrow> parse_args args' (cfg\<lparr>cfg_state := v\<rparr>))
      else if arg = ''--serve'' then parse_args args (cfg\<lparr>cfg_serve := True\<rparr>)
      else if arg = ''--fresh'' then parse_args args (cfg\<lparr>cfg_fresh := True\<rparr>)
      else if arg = ''--bench-bytes'' then
        (case args of [] \<Rightarrow> Inl (Missing_Value arg) | v # args' \<Rightarrow>
           (case parse_u32 v of None \<Rightarrow> Inl Bad_Bench_Bytes
            | Some n \<Rightarrow> parse_args args' (cfg\<lparr>cfg_bench_len := n\<rparr>)))
      else if arg = ''--mcp'' then
        (case args of [] \<Rightarrow> Inr (cfg\<lparr>cfg_mcp := Some DEFAULT_MCP_ADDR\<rparr>)
         | v # args' \<Rightarrow> parse_args args' (cfg\<lparr>cfg_mcp := Some v\<rparr>))
      else if arg = ''--auto-reply'' then parse_args args (cfg\<lparr>cfg_auto_reply := True\<rparr>)
      else Inl (Unknown_Arg arg))"

section \<open>The state file\<close>

text \<open>The wire codecs of \<open>QlIdentity\<close> and \<open>PeerBundle\<close>.\<close>

record ('i, 'b) peer_codec =
  encode_identity :: "'i \<Rightarrow> bytes"
  decode_identity :: "bytes \<Rightarrow> 'i option"
  encode_bundle :: "'b \<Rightarrow> bytes"
  decode_bundle :: "bytes \<Rightarrow> 'b option"

datatype state_panic =
    Cannot_Read_State
  | State_Truncated
  | State_Too_Short nat nat
  | Bad_Identity
  | Bad_Bundle

definition state_bytes :: "('i, 'b) peer_codec \<Rightarrow> 'i \<Rightarrow> 'b \<Rightarrow> bytes" where
  "state_bytes c identity bundle =
     (let id_buf = encode_identity c identity; bundle_buf = encode_bundle c bundle in
      be32 (word_of_nat (length id_buf)) @ id_buf @ bundle_buf)"

definition load_state :: "('i, 'b) peer_codec \<Rightarrow> bytes option \<Rightarrow> (state_panic, 'i \<times> 'b) result" where
  "load_state c file =
     and_then (ok_or file Cannot_Read_State) (\<lambda>buf.
     if length buf < 4 then Inl State_Truncated
     else let id_len = unat (from_be32 (buf ! 0) (buf ! 1) (buf ! 2) (buf ! 3)) in
     if length buf < 4 + id_len then Inl (State_Too_Short (4 + id_len) (length buf))
     else and_then (ok_or (decode_identity c (take id_len (drop 4 buf))) Bad_Identity) (\<lambda>identity.
          and_then (ok_or (decode_bundle c (drop (4 + id_len) buf)) Bad_Bundle) (\<lambda>bundle.
          Inr (identity, bundle))))"

section \<open>The pairing invite\<close>

text \<open>The sizes and the version are constants of the QL libraries.\<close>

record invite_format =
  qid_size :: nat
  token_size :: nat
  invite_version :: u8

datatype invite_panic = Invite_Not_Hex | Invite_Length nat | Invite_Version u8

definition parse_invite ::
    "invite_format \<Rightarrow> (string \<Rightarrow> bytes option) \<Rightarrow> string \<Rightarrow> (invite_panic, bytes \<times> bytes) result" where
  "parse_invite fmt hex raw =
     and_then (ok_or (hex (str_trim (after_last CHR 0x3a raw))) Invite_Not_Hex) (\<lambda>b.
     if length b \<noteq> 1 + qid_size fmt + token_size fmt then Inl (Invite_Length (length b))
     else if b ! 0 \<noteq> invite_version fmt then Inl (Invite_Version (b ! 0))
     else Inr (take (qid_size fmt) (drop 1 b), drop (1 + qid_size fmt) b))"

section \<open>Pieces of the platform\<close>

datatype 'a poll = Ready 'a | Pending

text \<open>\<open>BackendInbound::poll_recv\<close>: a closed channel is not reported.\<close>

definition poll_recv :: "bytes option poll \<Rightarrow> bytes poll" where
  "poll_recv p = (case p of Ready (Some b) \<Rightarrow> Ready b | Ready None \<Rightarrow> Pending | Pending \<Rightarrow> Pending)"

text \<open>Instants are seconds; a timer without a deadline is parked a hundred years ahead.\<close>

definition parked_deadline :: "nat \<Rightarrow> nat" where
  "parked_deadline now = now + 60 * 60 * 24 * 365 * 100"

definition set_deadline :: "nat \<Rightarrow> nat option \<Rightarrow> nat" where
  "set_deadline now deadline = (case deadline of None \<Rightarrow> parked_deadline now | Some d \<Rightarrow> d)"

text \<open>The timing the backend asks of the QL state machine, in seconds; the rest is left as it is.\<close>

record fsm_timing =
  handshake_timeout :: nat
  session_record_retransmit_timeout :: nat
  session_keepalive_interval :: nat
  session_peer_timeout :: nat

definition ble_config :: "'a fsm_timing_scheme \<Rightarrow> 'a fsm_timing_scheme" where
  "ble_config defaults = defaults\<lparr>handshake_timeout := 10, session_record_retransmit_timeout := 2,
     session_keepalive_interval := 0, session_peer_timeout := 0\<rparr>"

text \<open>The event \<open>handle_peer_status\<close> emits beside queueing the status.\<close>

definition status_event :: "bool \<Rightarrow> peer_status \<Rightarrow> backend_event" where
  "status_event peer_known status =
     Status_Changed status (status \<in> {Connected, Initiator}) peer_known"

text \<open>
  \<open>await_status\<close> on the statuses that arrive within the timeout; \<open>closes\<close> says whether the
  channel closes after them.
\<close>

datatype waited = Reached | Elapsed | Feed_Closed

fun await_status :: "peer_status \<Rightarrow> peer_status list \<Rightarrow> bool \<Rightarrow> waited" where
  "await_status target [] closes = (if closes then Feed_Closed else Elapsed)"
| "await_status target (s # ss) closes = (if s = target then Reached else await_status target ss closes)"

section \<open>Starting a session\<close>

record 'i startup_world =
  reachable :: "string \<Rightarrow> bool"
  new_identity :: "'i option"
  unreadable :: "string \<Rightarrow> bool"
  write_fault :: "bytes option option"

record 'b session_feed =
  status_feed :: "peer_status list"
  status_closes :: bool
  peer_bundle :: "'b option"

type_synonym disk = "string \<Rightarrow> bytes option"

text \<open>What \<open>run\<close> asks of the runtime, in order.\<close>

datatype ('i, 'b) startup_action =
    Dial string
  | New_Runtime 'i
  | Bind_Peer 'b
  | Connect_Peer
  | Start_Pairing bytes bytes

datatype startup_stop =
    Cannot_Reach string
  | State_Panic state_panic
  | Identity_Panic
  | Token_Missing
  | Invite_Panic invite_panic
  | Status_Channel_Closed
  | Handshake_Timeout
  | Cannot_Write_State

text \<open>The identity and, in IK mode, the bundle.\<close>

definition choose_identity ::
    "('i, 'b) peer_codec \<Rightarrow> 'i startup_world \<Rightarrow> string \<Rightarrow> disk \<Rightarrow> (startup_stop, 'i \<times> 'b option) result" where
  "choose_identity c w path d =
     (if d path \<noteq> None
      then (case load_state c (if unreadable w path then None else d path) of
              Inl e \<Rightarrow> Inl (State_Panic e)
            | Inr (identity, bundle) \<Rightarrow> Inr (identity, Some bundle))
      else (case new_identity w of
              None \<Rightarrow> Inl Identity_Panic
            | Some identity \<Rightarrow> Inr (identity, None)))"

definition handshake_actions ::
    "invite_format \<Rightarrow> (string \<Rightarrow> bytes option) \<Rightarrow> string option \<Rightarrow> 'b option
       \<Rightarrow> (startup_stop, ('i, 'b) startup_action list) result" where
  "handshake_actions fmt hex token ik_bundle =
     (case ik_bundle of
        Some bundle \<Rightarrow> Inr [Bind_Peer bundle, Connect_Peer]
      | None \<Rightarrow>
          (case token of
             None \<Rightarrow> Inl Token_Missing
           | Some t \<Rightarrow>
               (case parse_invite fmt hex t of
                  Inl e \<Rightarrow> Inl (Invite_Panic e)
                | Inr (qid, tok) \<Rightarrow> Inr [Start_Pairing qid tok])))"

definition write_state :: "'i startup_world \<Rightarrow> string \<Rightarrow> bytes \<Rightarrow> disk \<Rightarrow> bool \<times> disk" where
  "write_state w path b d = (case write_fault w of
     None \<Rightarrow> (True, d(path \<mapsto> b)) | Some left \<Rightarrow> (False, d(path := left)))"

text \<open>
  \<open>run\<close> from the parsed arguments to the established session, IK or XX: how it ended, the
  disk and what was asked of the runtime.  In XX mode a bundle that does not arrive is only
  warned about.
\<close>

definition start_session ::
    "('i, 'b) peer_codec \<Rightarrow> invite_format \<Rightarrow> (string \<Rightarrow> bytes option) \<Rightarrow> 'i startup_world \<Rightarrow> 'b session_feed
       \<Rightarrow> backend_config \<Rightarrow> disk
       \<Rightarrow> (startup_stop, 'i \<times> bool) result \<times> disk \<times> ('i, 'b) startup_action list" where
  "start_session c fmt hex w feed cfg d0 =
     (let path = cfg_state cfg;
          d = (if cfg_fresh cfg then d0(path := None) else d0);
          ik_mode = (d path \<noteq> None);
          dial = [Dial (cfg_peer cfg)] in
      if \<not> reachable w (cfg_peer cfg) then (Inl (Cannot_Reach (cfg_peer cfg)), d, dial)
      else case choose_identity c w path d of
        Inl e \<Rightarrow> (Inl e, d, dial)
      | Inr (identity, ik_bundle) \<Rightarrow>
          (case handshake_actions fmt hex (cfg_token cfg) ik_bundle of
             Inl e \<Rightarrow> (Inl e, d, dial @ [New_Runtime identity])
           | Inr actions \<Rightarrow>
               (let acts = dial @ [New_Runtime identity] @ actions in
                case await_status Connected (status_feed feed) (status_closes feed) of
                  Feed_Closed \<Rightarrow> (Inl Status_Channel_Closed, d, acts)
                | Elapsed \<Rightarrow> (Inl Handshake_Timeout, d, acts)
                | Reached \<Rightarrow>
                    if ik_mode then (Inr (identity, ik_mode), d, acts)
                    else (case peer_bundle feed of
                       None \<Rightarrow> (Inr (identity, ik_mode), d, acts)
                     | Some bundle \<Rightarrow>
                         (case write_state w path (state_bytes c identity bundle) d of
                            (True, d') \<Rightarrow> (Inr (identity, ik_mode), d', acts)
                          | (False, d') \<Rightarrow> (Inl Cannot_Write_State, d', acts))))))"

section \<open>Properties\<close>

text \<open>The loader accepts a state file exactly when it is a length, an identity of that length and
  a bundle that fills the rest, both of which decode; anything shorter, longer or undecodable makes
  it panic and never yields another pair.\<close>

theorem load_state_exact:
  "load_state c (Some buf) = Inr (identity, bundle) \<longleftrightarrow>
     (\<exists>x y. buf = be32 (word_of_nat (length x)) @ x @ y \<and> length x < 4294967296
        \<and> decode_identity c x = Some identity \<and> decode_bundle c y = Some bundle)"
proof
  assume ok: "load_state c (Some buf) = Inr (identity, bundle)"
  let ?n = "unat (from_be32 (buf ! 0) (buf ! 1) (buf ! 2) (buf ! 3))"
  from ok have len: "4 \<le> length buf" "4 + ?n \<le> length buf"
    and dec: "decode_identity c (take ?n (drop 4 buf)) = Some identity"
      "decode_bundle c (drop (4 + ?n) buf) = Some bundle"
    by (auto simp: load_state_def Let_def result_iffs split: if_splits)
  have "take 4 buf = [buf ! 0, buf ! 1, buf ! 2, buf ! 3]"
    using len(1) by (simp add: list_eq_iff_nth_eq less_Suc_eq numeral_eq_Suc)
  also have "\<dots> = be32 (word_of_nat ?n)"
    by (simp add: be32_from_be32)
  finally have head: "take 4 buf = be32 (word_of_nat ?n)" .
  have "buf = take 4 buf @ take ?n (drop 4 buf) @ drop ?n (drop 4 buf)"
    by (simp only: append_take_drop_id)
  then have "buf = be32 (word_of_nat ?n) @ take ?n (drop 4 buf) @ drop (4 + ?n) buf"
    by (simp only: head drop_drop add.commute)
  moreover have "length (take ?n (drop 4 buf)) = ?n" using len by simp
  ultimately show "\<exists>x y. buf = be32 (word_of_nat (length x)) @ x @ y \<and> length x < 4294967296
      \<and> decode_identity c x = Some identity \<and> decode_bundle c y = Some bundle"
    using dec unat_u32_bound by metis
next
  assume "\<exists>x y. buf = be32 (word_of_nat (length x)) @ x @ y \<and> length x < 4294967296
      \<and> decode_identity c x = Some identity \<and> decode_bundle c y = Some bundle"
  then obtain x y where buf: "buf = be32 (word_of_nat (length x)) @ x @ y" and small: "length x < 4294967296"
    and dec: "decode_identity c x = Some identity" "decode_bundle c y = Some bundle" by blast
  have "unat (from_be32 (buf ! 0) (buf ! 1) (buf ! 2) (buf ! 3)) = length x"
    unfolding buf using from_be32_be32 [of "word_of_nat (length x)"] small
    by (simp add: nth_append unat_of_nat_u32 del: of_nat_unat)
  with dec show "load_state c (Some buf) = Inr (identity, bundle)"
    by (simp add: load_state_def Let_def buf)
qed


lemma await_reached: "await_status target ss closes = Reached \<longleftrightarrow> target \<in> set ss"
  by (induction ss) auto



text \<open>Identities and bundles of one byte, an invite of three, and two runs.\<close>

definition tiny_codec :: "(u8, u8) peer_codec" where
  "tiny_codec = \<lparr>encode_identity = (\<lambda>i. [i]), decode_identity = (\<lambda>b. case b of [i] \<Rightarrow> Some i | _ \<Rightarrow> None),
     encode_bundle = (\<lambda>i. [i]), decode_bundle = (\<lambda>b. case b of [i] \<Rightarrow> Some i | _ \<Rightarrow> None)\<rparr>"

definition tiny_format :: invite_format where
  "tiny_format = \<lparr>qid_size = 1, token_size = 1, invite_version = 1\<rparr>"

definition tiny_world :: "u8 startup_world" where
  "tiny_world = \<lparr>reachable = (\<lambda>_. True), new_identity = Some 5, unreadable = (\<lambda>_. False), write_fault = None\<rparr>"

definition tiny_feed :: "u8 session_feed" where
  "tiny_feed = \<lparr>status_feed = [Initiator, Connected], status_closes = False, peer_bundle = Some 9\<rparr>"



text \<open>C7. The state file is safe: no run touches any other file; a run that finds a state file and is
  not asked to start afresh never changes it, whatever fails; and a file appears only in a fresh
  pairing, after the session was established and the peer's bundle captured.\<close>

theorem state_file_safety:
  assumes "start_session c fmt hex w feed cfg d = (r, d', acts)"
  shows "(\<forall>p. p \<noteq> cfg_state cfg \<longrightarrow> d' p = d p)
    \<and> (d (cfg_state cfg) \<noteq> None \<longrightarrow> \<not> cfg_fresh cfg \<longrightarrow> d' = d)
    \<and> (d' (cfg_state cfg) \<noteq> None \<longrightarrow> d' (cfg_state cfg) \<noteq> d (cfg_state cfg) \<longrightarrow>
         Connected \<in> set (status_feed feed) \<and> peer_bundle feed \<noteq> None
         \<and> (r = Inl Cannot_Write_State
            \<or> (\<exists>i b. r = Inr (i, False) \<and> peer_bundle feed = Some b
                 \<and> d' (cfg_state cfg) = Some (state_bytes c i b))))"
proof -
  let ?d = "if cfg_fresh cfg then d(cfg_state cfg := None) else d"
  have "d' = ?d \<or> (?d (cfg_state cfg) = None \<and> Connected \<in> set (status_feed feed)
      \<and> (\<exists>i b. peer_bundle feed = Some b \<and>
          ((r = Inr (i, False) \<and> d' = ?d(cfg_state cfg \<mapsto> state_bytes c i b))
           \<or> (r = Inl Cannot_Write_State \<and> (\<exists>left. d' = ?d(cfg_state cfg := left))))))"
    using assms
    by (simp add: start_session_def write_state_def Let_def split del: if_split
          split: if_splits sum.splits prod.splits waited.splits option.splits)
      (auto simp: await_reached split: if_splits sum.splits prod.splits waited.splits option.splits)
  then show ?thesis by (auto split: if_splits)
qed

theorem state_file_safety_witness:
  "\<exists>r d' acts. start_session tiny_codec tiny_format (\<lambda>_. None) tiny_world tiny_feed default_config
      (\<lambda>p. Some [0, 0, 0, 9]) = (r, d', acts) \<and> r = Inl (State_Panic (State_Too_Short 13 4)) \<and> d' = (\<lambda>p. Some [0, 0, 0, 9])"
proof -
  obtain r d' acts where run: "start_session tiny_codec tiny_format (\<lambda>_. None) tiny_world tiny_feed
      default_config (\<lambda>p. Some [0, 0, 0, 9]) = (r, d', acts)" by (metis prod_cases3)
  have "d' = (\<lambda>p. Some [0, 0, 0, 9])"
    using state_file_safety [OF run] by (simp add: default_config_def)
  moreover have "r = Inl (State_Panic (State_Too_Short 13 4))"
    using run by (simp add: start_session_def choose_identity_def load_state_def tiny_world_def
        default_config_def from_be32_def Let_def) (auto simp: eval_nat_numeral)
  ultimately show ?thesis using run by blast
qed

text \<open>C39. Both forms of the invite the device prints are understood: the bare hexadecimal text and the
  whole QR payload, of which everything up to the last colon is ignored, each with white space
  around it, yield the identifier and the token that were encoded; another version, or another
  length, is refused.\<close>

theorem parse_invite_roundtrip:
  assumes hex: "\<And>b. hex (hex_encode b) = Some b"
    and pad: "set p \<subseteq> set white_space" "set p' \<subseteq> set white_space"
    and size: "length q = qid_size fmt" "length k = token_size fmt"
  shows "parse_invite fmt hex (concat p @ hex_encode (invite_version fmt # q @ k) @ concat p') = Inr (q, k)
    \<and> parse_invite fmt hex (addr @ CHR 0x3a # concat p @ hex_encode (invite_version fmt # q @ k) @ concat p')
        = Inr (q, k)
    \<and> (v \<noteq> invite_version fmt \<longrightarrow>
        parse_invite fmt hex (hex_encode (v # q @ k)) = Inl (Invite_Version v))
    \<and> (length b \<noteq> 1 + qid_size fmt + token_size fmt \<longrightarrow> b \<noteq> [] \<longrightarrow>
        parse_invite fmt hex (hex_encode b) = Inl (Invite_Length (length b)))"
proof -
  have no_colon: "CHR 0x3a \<notin> set (concat p @ hex_encode b @ concat p')" for b
    using white_space_no_colon pad hex_encode_chars [of b] hex_chars_no_colon by auto
  note last = after_last_absent [OF no_colon] after_last_append [OF no_colon]
  have trim: "str_trim (concat p @ hex_encode b @ concat p') = hex_encode b" if "b \<noteq> []" for b
    using that by (intro str_trim_pad pad hex_encode_chars) simp
  have bare: "str_trim (after_last CHR 0x3a (hex_encode b)) = hex_encode b" if "b \<noteq> []" for b
  proof -
    have "CHR 0x3a \<notin> set (hex_encode b)"
      using hex_encode_chars [of b] hex_chars_no_colon by blast
    moreover have "str_trim (hex_encode b) = hex_encode b"
      using that str_trim_pad [of "[]" "[]" "hex_encode b"] hex_encode_chars [of b] by simp
    ultimately show ?thesis by (simp add: after_last_absent)
  qed
  show ?thesis
    by (simp add: parse_invite_def last trim bare hex size)
qed

text \<open>A QR payload with a trailing newline.\<close>

theorem parse_invite_roundtrip_witness:
  "parse_invite tiny_format hex_decode
     (''12:34'' @ CHR 0x3a # concat [] @ hex_encode (invite_version tiny_format # [2] @ [3])
        @ concat [[char_of (10 :: nat)]]) = Inr ([2], [3])"
proof -
  have nl: "set [[char_of (10 :: nat)]] \<subseteq> set white_space"
    by (simp add: white_space_def white_space_codes_def)
  have pad: "set [] \<subseteq> set white_space" by simp
  have size: "length [2 :: u8] = qid_size tiny_format" "length [3 :: u8] = token_size tiny_format"
    by (simp_all add: tiny_format_def)
  show ?thesis
    by (rule parse_invite_roundtrip [OF hex_decode_encode pad nl size, THEN conjunct2, THEN conjunct1])
qed

section \<open>The command line\<close>

text \<open>Arguments that ask for a configuration.\<close>

definition args_of :: "backend_config \<Rightarrow> string list" where
  "args_of cfg =
     [''--connect-to'', cfg_peer cfg]
     @ (case cfg_token cfg of None \<Rightarrow> [] | Some t \<Rightarrow> [''--token'', t])
     @ [''--state'', cfg_state cfg, ''--bench-bytes'', show_nat (unat (cfg_bench_len cfg))]
     @ (if cfg_serve cfg then [''--serve''] else [])
     @ (if cfg_fresh cfg then [''--fresh''] else [])
     @ (case cfg_mcp cfg of None \<Rightarrow> [] | Some a \<Rightarrow> [''--mcp'', a])
     @ (if cfg_auto_reply cfg then [''--auto-reply''] else [])"

text \<open>Every configuration can be asked for on the command line and is understood: the arguments
  made from it parse back to it.  The address of \<open>--mcp\<close> may be left out at the very end of the
  command line only; anywhere else the next argument, even one that is itself an option, is taken
  as the address.\<close>

theorem parse_args_roundtrip:
  "parse_args (args_of cfg) default_config = Inr cfg
   \<and> parse_args [''--serve'', ''--mcp''] default_config =
       Inr (default_config\<lparr>cfg_serve := True, cfg_mcp := Some DEFAULT_MCP_ADDR\<rparr>)
   \<and> parse_args [''--mcp'', ''--serve''] default_config =
       Inr (default_config\<lparr>cfg_mcp := Some ''--serve''\<rparr>)"
  by (cases "cfg_token cfg"; cases "cfg_mcp cfg")
    (simp_all add: args_of_def default_config_def parse_show_u32)

end
