(* ===== verification/Backend_Serve.thy ===== *)
theory Backend_Serve
  imports Backend_Session
begin

text \<open>
  The RPC surface of the backend (\<^verbatim>\<open>backend/src/lib.rs\<close>): the handlers of
  \<open>RouterState\<close> for the streams a device opens, the chat input, and the two client calls
  \<open>run\<close> makes when it does not serve.  The RPC library's stream ends and SHA-256 are
  parameters; a handler is a function of the operations it performs on its stream.
\<close>

section \<open>Operations on a stream\<close>

datatype stream_op =
    Respond_Echo string
  | Respond_History string
  | Respond_Text string
  | Send_Rate string f64 nat
  | Send_Bytes bytes
  | Finish
  | Download_Start bytes
  | Part_Start
  | Part_Send bytes
  | Part_Finish
  | Download_Finish

text \<open>The far end of a stream: whether an operation succeeds, and its next state.\<close>

type_synonym 'w sink = "stream_op \<Rightarrow> 'w \<Rightarrow> bool \<times> 'w"

text \<open>How a handler ends: with the events it emitted, parked for ever, or by a panic.\<close>

datatype handled = Completed "backend_event list" | Parked | Handler_Panic panic

section \<open>The handlers\<close>

definition BENCHMARK_CHUNK_LEN :: nat where "BENCHMARK_CHUNK_LEN = 4 * 1024"

text \<open>\<open>emit\<close>: only when the server carries an event channel.\<close>

definition emit :: "bool \<Rightarrow> backend_event \<Rightarrow> backend_event list" where
  "emit events e = (if events then [e] else [])"

definition handle_echo :: "'w sink \<Rightarrow> bool \<Rightarrow> nat \<Rightarrow> string \<Rightarrow> 'w \<Rightarrow> handled \<times> 'w" where
  "handle_echo sink events ms message w =
     (case sink (Respond_Echo message) w of
        (True, w') \<Rightarrow> (Completed (emit events (Echo_Handled message message ms)), w')
      | (False, w') \<Rightarrow> (Completed [], w'))"

function benchmark_loop :: "'w sink \<Rightarrow> nat \<Rightarrow> 'w \<Rightarrow> bool \<times> 'w" where
  "benchmark_loop sink remaining w =
     (if remaining > 0 then
        (let n = min remaining BENCHMARK_CHUNK_LEN in
         case sink (Send_Bytes (replicate n 0)) w of
           (False, w') \<Rightarrow> (False, w')
         | (True, w') \<Rightarrow> benchmark_loop sink (remaining - n) w')
      else (True, w))"
  by pat_completeness auto
termination
  by (relation "measure (\<lambda>(sink, remaining, w). remaining)") (auto simp: BENCHMARK_CHUNK_LEN_def)

declare benchmark_loop.simps [simp del]

definition handle_benchmark :: "'w sink \<Rightarrow> bool \<Rightarrow> f64 \<Rightarrow> u32 \<Rightarrow> 'w \<Rightarrow> handled \<times> 'w" where
  "handle_benchmark sink events secs len w =
     (let total = unat len in
      case benchmark_loop sink total w of
        (False, w') \<Rightarrow> (Completed [], w')
      | (True, w') \<Rightarrow>
          (case sink Finish w' of
             (True, w'') \<Rightarrow> (Completed (emit events (Benchmark_Completed total secs)), w'')
           | (False, w'') \<Rightarrow> (Completed [], w'')))"

definition handle_exchange_rate :: "'w sink \<Rightarrow> 'w \<Rightarrow> handled \<times> 'w" where
  "handle_exchange_rate sink w = (case sink (Send_Rate ''USD'' (Finite 0) 0) w of (_, w') \<Rightarrow> (Parked, w'))"

definition handle_history :: "'w sink \<Rightarrow> string \<Rightarrow> 'w \<Rightarrow> handled \<times> 'w" where
  "handle_history sink currency_code w =
     (case sink (Respond_History currency_code) w of (_, w') \<Rightarrow> (Completed [], w'))"

definition handle_chat :: "'w sink \<Rightarrow> bool \<Rightarrow> string \<Rightarrow> 'w \<Rightarrow> handled \<times> 'w" where
  "handle_chat sink events message w =
     (case sink (Respond_Text message) w of (_, w') \<Rightarrow> (Completed (emit events (Chat_Received message)), w'))"

text \<open>The body loop, with the slice of the payload it copies bound-checked.\<close>

function download_loop ::
    "'w sink \<Rightarrow> bytes \<Rightarrow> nat \<Rightarrow> nat \<Rightarrow> 'w \<Rightarrow> (panic, bool) result \<times> 'w" where
  "download_loop sink payload remaining offset w =
     (if remaining > 0 then
        (let n = min remaining BENCHMARK_CHUNK_LEN in
         case get_range payload offset (offset + n) of
           None \<Rightarrow> (Inl Index_Out_Of_Bounds, w)
         | Some chunk \<Rightarrow>
             (case sink (Part_Send chunk) w of
                (False, w') \<Rightarrow> (Inr False, w')
              | (True, w') \<Rightarrow> download_loop sink payload (remaining - n) (offset + n) w'))
      else (Inr True, w))"
  by pat_completeness auto
termination
  by (relation "measure (\<lambda>(sink, payload, remaining, offset, w). remaining)")
    (auto simp: BENCHMARK_CHUNK_LEN_def)

declare download_loop.simps [simp del]

definition handle_download ::
    "(bytes \<Rightarrow> bytes) \<Rightarrow> 'w sink \<Rightarrow> bool \<Rightarrow> f64 \<Rightarrow> u32 \<Rightarrow> 'w \<Rightarrow> handled \<times> 'w" where
  "handle_download sha256 sink events secs len w =
     (let total = unat len; payload = replicate total 0; hash = sha256 payload in
      case sink (Download_Start hash) w of
        (False, w) \<Rightarrow> (Completed [], w)
      | (True, w) \<Rightarrow>
     (case sink Part_Start w of
        (False, w) \<Rightarrow> (Completed [], w)
      | (True, w) \<Rightarrow>
     (case download_loop sink payload total 0 w of
        (Inl p, w) \<Rightarrow> (Handler_Panic p, w)
      | (Inr False, w) \<Rightarrow> (Completed [], w)
      | (Inr True, w) \<Rightarrow>
     (case sink Part_Finish w of
        (False, w) \<Rightarrow> (Completed [], w)
      | (True, w) \<Rightarrow>
     (case sink Download_Finish w of
        (False, w) \<Rightarrow> (Completed [], w)
      | (True, w) \<Rightarrow>
          (Completed (emit events (Download_Completed total secs (hex_encode (sha256 (replicate total 0))))), w))))))"

section \<open>Dispatch\<close>

text \<open>What a device may open a stream for; a route the router does not know is dropped.\<close>

datatype inbound =
    In_Echo string
  | In_Benchmark u32
  | In_Exchange_Rate
  | In_History string
  | In_Download u32
  | In_Chat string
  | In_Unrouted

definition handle_inbound ::
    "(bytes \<Rightarrow> bytes) \<Rightarrow> 'w sink \<Rightarrow> bool \<Rightarrow> nat \<Rightarrow> f64 \<Rightarrow> inbound \<Rightarrow> 'w \<Rightarrow> (handled \<times> 'w) option" where
  "handle_inbound sha256 sink events ms secs request w =
     (case request of
        In_Echo message \<Rightarrow> Some (handle_echo sink events ms message w)
      | In_Benchmark len \<Rightarrow> Some (handle_benchmark sink events secs len w)
      | In_Exchange_Rate \<Rightarrow> Some (handle_exchange_rate sink w)
      | In_History currency_code \<Rightarrow> Some (handle_history sink currency_code w)
      | In_Download len \<Rightarrow> Some (handle_download sha256 sink events secs len w)
      | In_Chat message \<Rightarrow> Some (handle_chat sink events message w)
      | In_Unrouted \<Rightarrow> None)"

section \<open>Chat input\<close>

text \<open>What \<open>next_line\<close> returns; the loop pushes every non-empty line and ignores failures.\<close>

datatype line_read = Line string | Lines_End | Lines_Error

fun chat_input :: "line_read list \<Rightarrow> string list" where
  "chat_input (Line l # rs) = (if l = [] then chat_input rs else l # chat_input rs)"
| "chat_input _ = []"

text \<open>
  The listener: without its port it gives up, a failed \<open>accept\<close> (\<open>None\<close>) is skipped, and
  every connection gets a task of its own; the result is what each of them pushes.
\<close>

fun chat_input_tasks :: "line_read list option list \<Rightarrow> string list list" where
  "chat_input_tasks [] = []"
| "chat_input_tasks (None # conns) = chat_input_tasks conns"
| "chat_input_tasks (Some lines # conns) = chat_input lines # chat_input_tasks conns"

definition chat_input_loop :: "bool \<Rightarrow> line_read list option list \<Rightarrow> string list list" where
  "chat_input_loop bound conns = (if bound then chat_input_tasks conns else [])"

section \<open>The client calls\<close>

datatype client_end = Client_Ok | Client_Exit_1 | Client_Panic panic

text \<open>\<open>None\<close> is a failed call.\<close>

definition run_echo :: "(string \<Rightarrow> string option) \<Rightarrow> client_end" where
  "run_echo rpc_echo =
     (let msg = ''hello from the backend over QL v2'' in
      case rpc_echo msg of
        Some reply \<Rightarrow> (if reply = msg then Client_Ok else Client_Panic Assertion_Failed)
      | None \<Rightarrow> Client_Exit_1)"

text \<open>The events of a subscription until it ends: a chunk, or an error.\<close>

fun received_bytes :: "nat \<Rightarrow> bytes option list \<Rightarrow> nat option" where
  "received_bytes received [] = Some received"
| "received_bytes received (Some chunk # es) = received_bytes (received + length chunk) es"
| "received_bytes received (None # es) = None"

definition run_benchmark :: "(u32 \<Rightarrow> bytes option list option) \<Rightarrow> u32 \<Rightarrow> nat option" where
  "run_benchmark subscribe len =
     (case subscribe len of None \<Rightarrow> None | Some events \<Rightarrow> received_bytes 0 events)"

text \<open>What \<open>run\<close> does once the session stands.\<close>

datatype run_end = Serving | Client_Done "nat option" | Ended client_end

definition after_session ::
    "backend_config \<Rightarrow> (string \<Rightarrow> string option) \<Rightarrow> (u32 \<Rightarrow> bytes option list option) \<Rightarrow> run_end" where
  "after_session cfg rpc_echo subscribe =
     (if cfg_serve cfg then Serving
      else case run_echo rpc_echo of
        Client_Ok \<Rightarrow> Client_Done (run_benchmark subscribe (cfg_bench_len cfg))
      | e \<Rightarrow> Ended e)"

section \<open>Scripts\<close>

text \<open>Operations performed in order up to the first that fails.\<close>

fun run_script :: "'w sink \<Rightarrow> stream_op list \<Rightarrow> 'w \<Rightarrow> bool \<times> 'w" where
  "run_script sink [] w = (True, w)"
| "run_script sink (op # ops) w =
     (case sink op w of (False, w') \<Rightarrow> (False, w') | (True, w') \<Rightarrow> run_script sink ops w')"

lemma run_script_append:
  "run_script sink (xs @ ys) w =
     (case run_script sink xs w of (False, w') \<Rightarrow> (False, w') | (True, w') \<Rightarrow> run_script sink ys w')"
  by (induction xs arbitrary: w) (auto split: prod.split bool.split)

text \<open>A payload in pieces of at most \<open>BENCHMARK_CHUNK_LEN\<close>.\<close>

function pieces :: "bytes \<Rightarrow> bytes list" where
  "pieces b = (if b = [] then [] else take BENCHMARK_CHUNK_LEN b # pieces (drop BENCHMARK_CHUNK_LEN b))"
  by pat_completeness auto
termination
  by (relation "measure length") (auto simp: BENCHMARK_CHUNK_LEN_def)

declare pieces.simps [simp del]

lemma pieces_Nil [simp]: "pieces [] = []"
  by (simp add: pieces.simps)

lemma concat_pieces: "concat (pieces b) = b"
proof (induction b rule: pieces.induct)
  case (1 b)
  then show ?case by (cases "b = []") (simp_all add: pieces.simps [of b])
qed

lemma pieces_sizes: "list_all (\<lambda>p. p \<noteq> [] \<and> length p \<le> BENCHMARK_CHUNK_LEN) (pieces b)"
proof (induction b rule: pieces.induct)
  case (1 b)
  then show ?case
    by (cases "b = []") (simp_all add: pieces.simps [of b], simp add: BENCHMARK_CHUNK_LEN_def)
qed

lemma length_pieces: "length (pieces b) = (length b + BENCHMARK_CHUNK_LEN - 1) div BENCHMARK_CHUNK_LEN"
proof (induction b rule: pieces.induct)
  case (1 b)
  show ?case
  proof (cases "b = []")
    case True
    then show ?thesis by (simp add: BENCHMARK_CHUNK_LEN_def)
  next
    case False
    with 1 have "length (pieces b) =
        Suc ((length b - BENCHMARK_CHUNK_LEN + BENCHMARK_CHUNK_LEN - 1) div BENCHMARK_CHUNK_LEN)"
      by (simp add: pieces.simps [of b])
    with False show ?thesis
      by (cases "length b \<le> BENCHMARK_CHUNK_LEN")
        (auto simp: BENCHMARK_CHUNK_LEN_def le_div_geq neq_Nil_conv div_if)
  qed
qed

lemma benchmark_loop_script:
  "benchmark_loop sink n w = run_script sink (map Send_Bytes (pieces (replicate n 0))) w"
proof (induction sink n w rule: benchmark_loop.induct)
  case (1 sink n w)
  show ?case
  proof (cases "n = 0")
    case True
    then show ?thesis by (simp add: benchmark_loop.simps)
  next
    case False
    then have "pieces (replicate n (0 :: u8)) =
        replicate (min n BENCHMARK_CHUNK_LEN) 0 # pieces (replicate (n - min n BENCHMARK_CHUNK_LEN) 0)"
      by (subst pieces.simps) (auto simp: min_def)
    with False 1 [OF _ refl] show ?thesis
      by (subst benchmark_loop.simps) (auto simp: Let_def split: prod.split bool.split)
  qed
qed

lemma download_loop_script:
  "offset + remaining = length payload \<Longrightarrow>
   download_loop sink payload remaining offset w =
     (case run_script sink (map Part_Send (pieces (drop offset payload))) w of (ok, w') \<Rightarrow> (Inr ok, w'))"
proof (induction sink payload remaining offset w rule: download_loop.induct)
  case (1 sink payload remaining offset w)
  show ?case
  proof (cases "remaining = 0")
    case True
    with 1 show ?thesis by (subst download_loop.simps) simp
  next
    case False
    let ?n = "min remaining BENCHMARK_CHUNK_LEN"
    have fits: "offset + ?n \<le> length payload" using "1.prems" by auto
    then have slice: "get_range payload offset (offset + ?n) = Some (take ?n (drop offset payload))"
      by (simp add: get_range_def)
    have n: "take ?n (drop offset payload) = take BENCHMARK_CHUNK_LEN (drop offset payload)"
      "drop (offset + ?n) payload = drop BENCHMARK_CHUNK_LEN (drop offset payload)"
      using "1.prems" by (auto simp: min_def add.commute)
    have "drop offset payload \<noteq> []" using False "1.prems" by simp
    then have "pieces (drop offset payload) =
        take ?n (drop offset payload) # pieces (drop (offset + ?n) payload)"
      unfolding n by (subst pieces.simps) simp
    with False "1.prems" "1.IH" [OF _ refl slice] slice show ?thesis
      by (subst download_loop.simps) (auto simp: Let_def split: prod.split bool.split)
  qed
qed

section \<open>Properties\<close>

text \<open>The operations of a download and of a benchmark subscription.\<close>

definition download_script :: "(bytes \<Rightarrow> bytes) \<Rightarrow> bytes \<Rightarrow> stream_op list" where
  "download_script sha256 payload =
     [Download_Start (sha256 payload), Part_Start] @ map Part_Send (pieces payload)
       @ [Part_Finish, Download_Finish]"

definition benchmark_script :: "nat \<Rightarrow> stream_op list" where
  "benchmark_script n = map Send_Bytes (pieces (replicate n 0)) @ [Finish]"

text \<open>C20. A download is served as the route promises, for every requested length and every stream:
  the header with the hash of the whole payload, one part whose body is the payload in order, in
  pieces of at most 4 KiB, then the two ends; the handler stops at the first operation that fails,
  never panics, and reports the download, with the same hash, exactly when every operation
  succeeded.\<close>

theorem handle_download_script:
  defines "payload \<equiv> \<lambda>len. replicate (unat (len :: u32)) 0"
  shows "handle_download sha256 sink events secs len w =
      (case run_script sink (download_script sha256 (payload len)) w of (ok, w') \<Rightarrow>
        (Completed (if ok then emit events (Download_Completed (unat len) secs (hex_encode (sha256 (payload len))))
          else []), w'))
    \<and> concat (pieces (payload len)) = payload len
    \<and> list_all (\<lambda>p. p \<noteq> [] \<and> length p \<le> 4096) (pieces (payload len))"
proof -
  have "download_loop sink (payload len) (unat len) 0 v =
      (case run_script sink (map Part_Send (pieces (payload len))) v of (ok, v') \<Rightarrow> (Inr ok, v'))" for v
    using download_loop_script [of 0 "unat len" "payload len" sink v] by (simp add: payload_def)
  then have "handle_download sha256 sink events secs len w =
      (case run_script sink (download_script sha256 (payload len)) w of (ok, w') \<Rightarrow>
        (Completed (if ok then emit events (Download_Completed (unat len) secs (hex_encode (sha256 (payload len))))
          else []), w'))"
    by (auto simp: handle_download_def download_script_def run_script_append Let_def payload_def
        split: prod.split bool.split)
  then show ?thesis
    using concat_pieces pieces_sizes by (simp add: BENCHMARK_CHUNK_LEN_def)
qed

lemma received_pieces: "received_bytes n (map Some ps) = Some (n + length (concat ps))"
  by (induction ps arbitrary: n) (simp_all add: add.assoc)

text \<open>C21. The benchmark agrees with itself end to end: a subscription is served as zero bytes in pieces
  of at most 4 KiB, exactly as many as the length divided by the piece size rounds up to, and the
  end of the stream, stopping at the first failure and reporting completion only without one; and
  a client that receives these pieces counts exactly the number of bytes it asked for.\<close>

theorem benchmark_end_to_end:
  "handle_benchmark sink events secs len w =
      (case run_script sink (benchmark_script (unat len)) w of (ok, w') \<Rightarrow>
        (Completed (if ok then emit events (Benchmark_Completed (unat len) secs) else []), w'))
    \<and> list_all (\<lambda>p. p \<noteq> [] \<and> length p \<le> 4096) (pieces (replicate (unat len) 0))
    \<and> length (pieces (replicate (unat len) 0)) = (unat len + 4095) div 4096
    \<and> run_benchmark (\<lambda>n. Some (map Some (pieces (replicate (unat n) 0)))) len = Some (unat len)"
proof -
  have "handle_benchmark sink events secs len w =
      (case run_script sink (benchmark_script (unat len)) w of (ok, w') \<Rightarrow>
        (Completed (if ok then emit events (Benchmark_Completed (unat len) secs) else []), w'))"
    by (auto simp: handle_benchmark_def benchmark_script_def run_script_append benchmark_loop_script
        Let_def split: prod.split bool.split)
  moreover have "length (pieces (replicate (unat len) 0)) = (unat len + 4095) div 4096"
    using length_pieces [of "replicate (unat len) 0"] by (simp add: BENCHMARK_CHUNK_LEN_def)
  moreover have "run_benchmark (\<lambda>n. Some (map Some (pieces (replicate (unat n) 0)))) len = Some (unat len)"
    by (simp add: run_benchmark_def received_pieces concat_pieces)
  ultimately show ?thesis
    using pieces_sizes [of "replicate (unat len) 0"] by (simp add: BENCHMARK_CHUNK_LEN_def)
qed

text \<open>No request makes a handler panic, and only the exchange-rate subscription is parked.\<close>

lemma handle_inbound_safe:
  assumes "handle_inbound sha256 sink events ms secs request w = Some (h, w')"
  shows "(\<forall>p. h \<noteq> Handler_Panic p) \<and> (h = Parked \<longleftrightarrow> request = In_Exchange_Rate)
    \<and> (\<not> events \<longrightarrow> h \<in> {Parked, Completed []})"
proof (cases request)
  case (In_Download len)
  with assms download_loop_script [of 0 "unat len" "replicate (unat len) 0" sink] show ?thesis
    by (auto simp: handle_inbound_def handle_download_def Let_def emit_def split: prod.splits bool.splits)
qed (use assms in \<open>auto simp: handle_inbound_def handle_echo_def handle_benchmark_def emit_def
    handle_exchange_rate_def handle_history_def handle_chat_def Let_def split: prod.splits bool.splits\<close>)

end
