(* ===== verification/Mcp_Sampling.thy ===== *)
theory Mcp_Sampling
  imports Mcp_State Transition
begin

text \<open>
  Server-initiated requests of the MCP server (\<^verbatim>\<open>backend/src/mcp.rs\<close>): the SSE sessions
  with their channels, the table of pending requests, \<open>McpState::sample\<close> cut at its await points
  into steps, and the replies that \<open>messages_handler\<close> routes to the waiting calls.  Calls,
  sessions, replies, timeouts and disconnects interleave freely; the invariant of the reachable
  states says that ids are never confused and that no pending entry leaks.
\<close>

section \<open>State\<close>

type_synonym uuid = nat

datatype sse = Endpoint_Event uuid | Message_Event json

text \<open>An SSE channel: all that was ever sent, how much the client took, and whether it listens.\<close>

record sse_channel =
  ch_log :: "sse list"
  ch_read :: nat
  ch_open :: bool

text \<open>
  A running \<open>sample()\<close>: about to push its request to a session, waiting for the reply, or
  returned.  \<open>c_slot\<close> is what was put into its oneshot.
\<close>

datatype call_phase = Sending uuid json | Waiting uuid json | Returned "(string, string) result"

record sample_call =
  c_id :: "i64 option"
  c_phase :: call_phase
  c_slot :: "json option"

record mcp =
  sessions :: "uuid \<Rightarrow> uuid option"
  channels :: "uuid \<Rightarrow> sse_channel option"
  primary :: "uuid option"
  next_id :: i64
  pending :: "int \<Rightarrow> nat option"
  calls :: "sample_call list"

definition mcp_start :: mcp where
  "mcp_start = \<lparr>sessions = (\<lambda>_. None), channels = (\<lambda>_. None), primary = None, next_id = 1,
     pending = (\<lambda>_. None), calls = []\<rparr>"

definition SSE_CAPACITY :: nat where "SSE_CAPACITY = 64"

section \<open>Channels and sessions\<close>

text \<open>\<open>Sender::send\<close>: \<open>None\<close> while the channel is full, an error once the receiver is gone.\<close>

definition chan_send :: "uuid \<Rightarrow> sse \<Rightarrow> mcp \<Rightarrow> (bool \<times> mcp) option" where
  "chan_send u m s = (case channels s u of
     None \<Rightarrow> Some (False, s)
   | Some ch \<Rightarrow>
       if \<not> ch_open ch then Some (False, s)
       else if length (ch_log ch) - ch_read ch < SSE_CAPACITY
       then Some (True, s\<lparr>channels := (channels s)(u \<mapsto> ch\<lparr>ch_log := ch_log ch @ [m]\<rparr>)\<rparr>)
       else None)"

text \<open>\<open>sse_handler\<close> with the freshly minted session id.\<close>

definition sse_handler :: "uuid \<Rightarrow> mcp \<Rightarrow> mcp" where
  "sse_handler u s =
     s\<lparr>channels := (channels s)(u \<mapsto> \<lparr>ch_log = [Endpoint_Event u], ch_read = 0, ch_open = True\<rparr>),
       sessions := (sessions s)(u \<mapsto> u), primary := Some u\<rparr>"

text \<open>The client takes an event off its stream, or goes away.  The clean-up closure of the stream
  maps over an empty iterator and never runs, so that nothing else changes.\<close>

definition client_read :: "uuid \<Rightarrow> mcp \<Rightarrow> mcp" where
  "client_read u s = (case channels s u of
     None \<Rightarrow> s
   | Some ch \<Rightarrow> if ch_read ch < length (ch_log ch)
       then s\<lparr>channels := (channels s)(u \<mapsto> ch\<lparr>ch_read := ch_read ch + 1\<rparr>)\<rparr> else s)"

definition client_gone :: "uuid \<Rightarrow> mcp \<Rightarrow> mcp" where
  "client_gone u s = (case channels s u of
     None \<Rightarrow> s | Some ch \<Rightarrow> s\<lparr>channels := (channels s)(u \<mapsto> ch\<lparr>ch_open := False\<rparr>)\<rparr>)"

section \<open>Sampling\<close>

definition sampling_request :: "i64 \<Rightarrow> string \<Rightarrow> string option \<Rightarrow> u32 \<Rightarrow> json" where
  "sampling_request rid prompt system_prompt max_tokens =
     JObj [(''jsonrpc'', JStr ''2.0''), (''id'', JInt (sint rid)), (''method'', JStr ''sampling/createMessage''),
       (''params'', JObj ([(''messages'', JArr [JObj [(''role'', JStr ''user''),
            (''content'', JObj [(''type'', JStr ''text''), (''text'', JStr prompt)])]]),
          (''maxTokens'', JInt (int (unat max_tokens)))]
          @ (case system_prompt of None \<Rightarrow> [] | Some sys \<Rightarrow> [(''systemPrompt'', JStr sys)])))]"

text \<open>Up to the first await: the client, the id, the waiter and the request.\<close>

definition sample_begin :: "string \<Rightarrow> string option \<Rightarrow> u32 \<Rightarrow> mcp \<Rightarrow> mcp" where
  "sample_begin prompt system_prompt max_tokens s =
     (case primary s of
        None \<Rightarrow> s\<lparr>calls := calls s @
          [\<lparr>c_id = None, c_phase = Returned (Inl ''no MCP client connected''), c_slot = None\<rparr>]\<rparr>
      | Some u \<Rightarrow>
          (let rid = next_id s in
           s\<lparr>next_id := rid + 1, pending := (pending s)(sint rid \<mapsto> length (calls s)),
             calls := calls s @ [\<lparr>c_id = Some rid,
               c_phase = Sending u (sampling_request rid prompt system_prompt max_tokens), c_slot = None\<rparr>]\<rparr>))"

definition set_phase :: "nat \<Rightarrow> call_phase \<Rightarrow> mcp \<Rightarrow> mcp" where
  "set_phase c p s = s\<lparr>calls := (calls s)[c := (calls s ! c)\<lparr>c_phase := p\<rparr>]\<rparr>"

definition drop_pending :: "i64 option \<Rightarrow> mcp \<Rightarrow> mcp" where
  "drop_pending rid s = (case rid of None \<Rightarrow> s | Some w \<Rightarrow> s\<lparr>pending := (pending s)(sint w := None)\<rparr>)"

text \<open>The push of the request; a closed channel undoes the registration.\<close>

definition sample_send :: "nat \<Rightarrow> mcp \<Rightarrow> mcp option" where
  "sample_send c s =
     (case c_phase (calls s ! c) of
        Sending u req \<Rightarrow>
          (case chan_send u (Message_Event req) s of
             None \<Rightarrow> None
           | Some (True, s') \<Rightarrow> Some (set_phase c (Waiting u req) s')
           | Some (False, s') \<Rightarrow>
               Some (set_phase c (Returned (Inl ''SSE session closed before sampling request sent''))
                 (drop_pending (c_id (calls s ! c)) s')))
      | _ \<Rightarrow> None)"

text \<open>What the call makes of a reply.\<close>

definition sample_result :: "(json \<Rightarrow> string) \<Rightarrow> json \<Rightarrow> (string, string) result" where
  "sample_result show_json response =
     (case jget ''error'' response of
        Some err \<Rightarrow> Inl (''sampling client error: '' @ show_json err)
      | None \<Rightarrow>
          ok_or (Option.bind (jget ''result'' response) (\<lambda>r. Option.bind (jget ''content'' r) (\<lambda>c.
                 Option.bind (jget ''text'' c) as_str)))
            (''unexpected sampling response shape: '' @ show_json response))"

text \<open>The wait ends with a reply, by the timeout, or because the waiter was dropped.\<close>

definition sample_wake :: "(json \<Rightarrow> string) \<Rightarrow> nat \<Rightarrow> mcp \<Rightarrow> mcp option" where
  "sample_wake show_json c s =
     (case (c_phase (calls s ! c), c_slot (calls s ! c)) of
        (Waiting u req, Some response) \<Rightarrow> Some (set_phase c (Returned (sample_result show_json response)) s)
      | _ \<Rightarrow> None)"

definition sample_timeout :: "nat \<Rightarrow> mcp \<Rightarrow> mcp option" where
  "sample_timeout c s =
     (case (c_phase (calls s ! c), c_slot (calls s ! c)) of
        (Waiting u req, None) \<Rightarrow>
          Some (set_phase c (Returned (Inl ''sampling timed out (60s)'')) (drop_pending (c_id (calls s ! c)) s))
      | _ \<Rightarrow> None)"

definition sample_closed :: "nat \<Rightarrow> mcp \<Rightarrow> mcp option" where
  "sample_closed c s =
     (case (c_phase (calls s ! c), c_slot (calls s ! c), c_id (calls s ! c)) of
        (Waiting u req, None, Some w) \<Rightarrow>
          (if pending s (sint w) \<noteq> Some c
           then Some (set_phase c (Returned (Inl ''sampling response channel closed'')) s) else None)
      | _ \<Rightarrow> None)"

section \<open>Replies\<close>

text \<open>\<open>waiter.send\<close>: a call that has returned no longer listens.\<close>

definition deliver :: "nat \<Rightarrow> json \<Rightarrow> mcp \<Rightarrow> mcp" where
  "deliver c body s =
     (case c_phase (calls s ! c) of
        Returned _ \<Rightarrow> s
      | _ \<Rightarrow> s\<lparr>calls := (calls s)[c := (calls s ! c)\<lparr>c_slot := Some body\<rparr>]\<rparr>)"

datatype http_status = Not_Found | Bad_Request | Accepted

text \<open>The id of a body that is a reply.\<close>

definition reply_id :: "json \<Rightarrow> int option" where
  "reply_id body =
     (if jget ''method'' body \<noteq> None then None else Option.bind (jget ''id'' body) as_i64)"

text \<open>\<open>messages_handler\<close> on a body without a \<open>method\<close>.\<close>

definition post_reply :: "uuid \<Rightarrow> json \<Rightarrow> mcp \<Rightarrow> http_status \<times> mcp" where
  "post_reply u body s =
     (case sessions s u of
        None \<Rightarrow> (Not_Found, s)
      | Some _ \<Rightarrow>
          (case reply_id body of
             None \<Rightarrow> (Accepted, s)
           | Some k \<Rightarrow>
               (case pending s k of
                  None \<Rightarrow> (Accepted, s)
                | Some c \<Rightarrow> (Accepted, deliver c body (s\<lparr>pending := (pending s)(k := None)\<rparr>)))))"

text \<open>The payload \<open>messages_handler\<close> pushes in answer to a client's request.\<close>

definition rpc_response :: "json \<Rightarrow> json \<Rightarrow> json" where
  "rpc_response rid outcome = JObj [(''jsonrpc'', JStr ''2.0''), (''id'', rid), (''result'', outcome)]"

section \<open>Behaviour\<close>

text \<open>
  The forwarders (\<open>notify\<close>) and the request handlers (\<open>respond\<close>) share the channels with the
  sampling calls; what they do beyond that is in the other theories.
\<close>

inductive mcp_step :: "(json \<Rightarrow> string) \<Rightarrow> mcp \<Rightarrow> mcp \<Rightarrow> bool" for show_json :: "json \<Rightarrow> string" where
  connect: "channels s u = None \<Longrightarrow> mcp_step show_json s (sse_handler u s)"
| read: "mcp_step show_json s (client_read u s)"
| gone: "mcp_step show_json s (client_gone u s)"
| notify: "chan_send u (Message_Event (notification_payload e)) s = Some (ok, s') \<Longrightarrow> mcp_step show_json s s'"
| respond: "chan_send u (Message_Event (rpc_response rid outcome)) s = Some (ok, s') \<Longrightarrow> mcp_step show_json s s'"
| begin_call: "mcp_step show_json s (sample_begin prompt system_prompt max_tokens s)"
| send: "c < length (calls s) \<Longrightarrow> sample_send c s = Some s' \<Longrightarrow> mcp_step show_json s s'"
| wake: "c < length (calls s) \<Longrightarrow> sample_wake show_json c s = Some s' \<Longrightarrow> mcp_step show_json s s'"
| timeout: "c < length (calls s) \<Longrightarrow> sample_timeout c s = Some s' \<Longrightarrow> mcp_step show_json s s'"
| closed: "c < length (calls s) \<Longrightarrow> sample_closed c s = Some s' \<Longrightarrow> mcp_step show_json s s'"
| reply: "mcp_step show_json s (snd (post_reply u body s))"

abbreviation mcp_reachable :: "(json \<Rightarrow> string) \<Rightarrow> mcp \<Rightarrow> bool" where
  "mcp_reachable show_json \<equiv> reachable mcp_start (mcp_step show_json)"

lemmas mcp_initial = reachable.initial [where start = "mcp_start" and step = "mcp_step show_json"] for show_json
lemmas mcp_follow = reachable.follow [where start = "mcp_start" and step = "mcp_step show_json"] for show_json

inductive_cases mcp_stepE: "mcp_step show_json s s'"

section \<open>Identifiers\<close>

text \<open>The ids minted so far, in order.\<close>

definition minted :: "mcp \<Rightarrow> i64 list" where
  "minted s = List.map_filter c_id (calls s)"

definition ids_in_order :: "mcp \<Rightarrow> bool" where
  "ids_in_order s \<longleftrightarrow>
     next_id s = word_of_nat (Suc (length (minted s)))
     \<and> minted s = map word_of_nat [1..<Suc (length (minted s))]"

lemma length_map_filter_le: "length (List.map_filter f xs) \<le> length xs"
  by (induction xs) (auto simp: List.map_filter_simps split: option.split)

lemma map_filter_append [simp]:
  "List.map_filter f (xs @ ys) = List.map_filter f xs @ List.map_filter f ys"
  by (simp add: List.map_filter_def)

lemma map_filter_update:
  "f y = f (xs ! i) \<Longrightarrow> List.map_filter f (xs[i := y]) = List.map_filter f xs"
proof (induction xs arbitrary: i)
  case (Cons x xs)
  show ?case
  proof (cases i)
    case (Suc k)
    then have "List.map_filter f (xs[k := y]) = List.map_filter f xs"
      using Cons.IH [of k] Cons.prems by simp
    with Suc show ?thesis by (simp add: List.map_filter_simps cong: option.case_cong)
  qed (use Cons.prems in \<open>simp add: List.map_filter_simps\<close>)
qed simp

lemma map_filter_mem: "i < length xs \<Longrightarrow> f (xs ! i) = Some w \<Longrightarrow> w \<in> set (List.map_filter f xs)"
  by (auto simp: List.map_filter_def image_iff) (metis nth_mem option.sel option.distinct(1))

lemma distinct_map_filter_nth:
  "distinct (List.map_filter f xs) \<Longrightarrow> i < length xs \<Longrightarrow> j < length xs \<Longrightarrow>
   f (xs ! i) = Some w \<Longrightarrow> f (xs ! j) = Some w \<Longrightarrow> i = j"
proof (induction xs arbitrary: i j)
  case (Cons x xs)
  have "distinct (List.map_filter f xs)"
    using Cons.prems(1) by (auto simp: List.map_filter_simps split: option.splits)
  with Cons show ?case
    using map_filter_mem [of _ xs f w]
    by (cases i; cases j) (auto simp: List.map_filter_simps split: option.splits)
qed simp

lemma word_of_nat_inj_64:
  "word_of_nat m = (word_of_nat n :: i64) \<longleftrightarrow> m = n" if "m < 18446744073709551616" "n < 18446744073709551616"
proof -
  have "unat (word_of_nat k :: i64) = k" if "k < 18446744073709551616" for k
    using that by (simp add: unat_of_nat)
  with that show ?thesis by metis
qed

lemma minted_distinct:
  assumes "ids_in_order s" "length (minted s) < 18446744073709551615"
  shows "distinct (minted s)" "next_id s \<notin> set (minted s)"
proof -
  have "inj_on (word_of_nat :: nat \<Rightarrow> i64) {1..<Suc (Suc (length (minted s)))}"
    using assms(2) by (auto simp: inj_on_def word_of_nat_inj_64)
  then have "distinct (map (word_of_nat :: nat \<Rightarrow> i64) [1..<Suc (Suc (length (minted s)))])"
    by (simp add: distinct_map del: upt_Suc)
  also have "map (word_of_nat :: nat \<Rightarrow> i64) [1..<Suc (Suc (length (minted s)))] = minted s @ [next_id s]"
    using assms(1) unfolding ids_in_order_def by (subst upt_Suc) (simp del: upt_Suc)
  finally show "distinct (minted s)" "next_id s \<notin> set (minted s)" by auto
qed

section \<open>The invariant\<close>

definition live :: "sample_call \<Rightarrow> bool" where
  "live x \<longleftrightarrow> (\<forall>r. c_phase x \<noteq> Returned r)"

text \<open>Every pending id belongs to a call that still waits for its reply.\<close>

definition pending_ok :: "mcp \<Rightarrow> bool" where
  "pending_ok s \<longleftrightarrow> (\<forall>k c. pending s k = Some c \<longrightarrow>
     c < length (calls s) \<and> live (calls s ! c) \<and> c_slot (calls s ! c) = None
     \<and> (\<exists>w. c_id (calls s ! c) = Some w \<and> sint w = k))"

text \<open>A call that runs has an id, and is pending under it until it has its reply.\<close>

definition waiting_ok :: "mcp \<Rightarrow> nat \<Rightarrow> bool" where
  "waiting_ok s c \<longleftrightarrow> (live (calls s ! c) \<longrightarrow>
     (\<exists>w. c_id (calls s ! c) = Some w \<and> (c_slot (calls s ! c) = None \<longrightarrow> pending s (sint w) = Some c)))"

text \<open>What a call received answers its own id, and what it returned was made of that.\<close>

definition reply_ok :: "(json \<Rightarrow> string) \<Rightarrow> sample_call \<Rightarrow> bool" where
  "reply_ok show_json x \<longleftrightarrow>
     (\<forall>b. c_slot x = Some b \<longrightarrow> (\<exists>w. c_id x = Some w \<and> reply_id b = Some (sint w)))
     \<and> (\<forall>t. c_phase x = Returned (Inr t) \<longrightarrow> (\<exists>b. c_slot x = Some b \<and> sample_result show_json b = Inr t))"

text \<open>A request carries the id of its call, and a waiting call's request was sent.\<close>

definition sent_ok :: "mcp \<Rightarrow> sample_call \<Rightarrow> bool" where
  "sent_ok s x \<longleftrightarrow>
     (\<forall>u req. c_phase x = Sending u req \<or> c_phase x = Waiting u req \<longrightarrow>
        (\<exists>w. c_id x = Some w \<and> jget ''id'' req = Some (JInt (sint w))))
     \<and> (\<forall>u req. c_phase x = Waiting u req \<longrightarrow>
        (\<exists>ch. channels s u = Some ch \<and> Message_Event req \<in> set (ch_log ch)))"

definition mcp_inv :: "(json \<Rightarrow> string) \<Rightarrow> mcp \<Rightarrow> bool" where
  "mcp_inv show_json s \<longleftrightarrow> ids_in_order s \<and> pending_ok s
     \<and> (\<forall>c<length (calls s). waiting_ok s c \<and> reply_ok show_json (calls s ! c) \<and> sent_ok s (calls s ! c))"

lemma sint_eq_iff: "sint (v :: i64) = sint w \<longleftrightarrow> v = w"
  by (auto intro: signed_word_eqI)

text \<open>Channels that only grow.\<close>

definition logs_grow :: "mcp \<Rightarrow> mcp \<Rightarrow> bool" where
  "logs_grow s s' \<longleftrightarrow> (\<forall>u ch. channels s u = Some ch \<longrightarrow>
     (\<exists>ch'. channels s' u = Some ch' \<and> set (ch_log ch) \<subseteq> set (ch_log ch')))"

lemma sent_ok_grow: "sent_ok s x \<Longrightarrow> logs_grow s s' \<Longrightarrow> sent_ok s' x"
  unfolding sent_ok_def logs_grow_def by (elim conjE, intro conjI) (assumption, blast)

lemma mcp_inv_channels:
  assumes "mcp_inv show_json s" "logs_grow s s'" "calls s' = calls s" "pending s' = pending s"
    "next_id s' = next_id s"
  shows "mcp_inv show_json s'"
  using assms sent_ok_grow [OF _ assms(2)]
  by (simp add: mcp_inv_def ids_in_order_def minted_def pending_ok_def waiting_ok_def)

lemma pending_answered:
  assumes "mcp_inv show_json s" "distinct (minted s)" "c < length (calls s)"
    "c_id (calls s ! c) = Some w" "c_slot (calls s ! c) \<noteq> None \<or> \<not> live (calls s ! c)"
  shows "pending s (sint w) = None"
proof (rule ccontr)
  assume "pending s (sint w) \<noteq> None"
  then obtain c' where c': "pending s (sint w) = Some c'" by auto
  with assms(1) obtain w' where "c' < length (calls s)" "live (calls s ! c')" "c_slot (calls s ! c') = None"
    "c_id (calls s ! c') = Some w'" "sint w' = sint w"
    unfolding mcp_inv_def pending_ok_def by blast
  moreover from this(5) have "w' = w" by (simp add: sint_eq_iff)
  ultimately have "c' = c"
    using distinct_map_filter_nth [of c_id "calls s" c' c w] assms(2-4) by (simp add: minted_def)
  with assms(5) \<open>live (calls s ! c')\<close> \<open>c_slot (calls s ! c') = None\<close> show False by simp
qed

text \<open>One call moves on; its pending entry goes unless it still waits.\<close>

lemma mcp_inv_update:
  assumes inv: "mcp_inv show_json s" "distinct (minted s)"
    and c: "c < length (calls s)" "c_id (calls s ! c) = Some w"
    and s': "calls s' = (calls s)[c := x]" "next_id s' = next_id s" "logs_grow s s'"
      "pending s' = (if live x \<and> c_slot x = None then pending s else (pending s)(sint w := None))"
    and x: "c_id x = Some w" "live x \<Longrightarrow> live (calls s ! c)" "c_slot x = None \<Longrightarrow> c_slot (calls s ! c) = None"
      "reply_ok show_json x" "sent_ok s' x"
  shows "mcp_inv show_json s'"
proof -
  have same: "minted s' = minted s"
    using c x(1) by (simp add: minted_def s'(1) map_filter_update)
  have other: "w' \<noteq> w" if "c' \<noteq> c" "c' < length (calls s)" "c_id (calls s ! c') = Some w'" for c' w'
    using distinct_map_filter_nth [of c_id "calls s" c' c w] inv(2) c that by (auto simp: minted_def)
  have nth: "calls s' ! c' = (if c' = c then x else calls s ! c')" for c'
    using c(1) by (simp add: s'(1))
  have "pending_ok s'"
    unfolding pending_ok_def
  proof (intro allI impI)
    fix k c' assume "pending s' k = Some c'"
    then have k: "pending s k = Some c'" "\<not> (live x \<and> c_slot x = None) \<Longrightarrow> k \<noteq> sint w"
      by (auto simp: s'(4) split: if_splits)
    with inv(1) obtain w' where c': "c' < length (calls s)" "live (calls s ! c')" "c_slot (calls s ! c') = None"
      "c_id (calls s ! c') = Some w'" "sint w' = k"
      unfolding mcp_inv_def pending_ok_def by blast
    have "live x \<and> c_slot x = None" if "c' = c"
      using k(2) c' c(2) that by (metis option.inject)
    with c' c x(1) show "c' < length (calls s') \<and> live (calls s' ! c') \<and> c_slot (calls s' ! c') = None
        \<and> (\<exists>w. c_id (calls s' ! c') = Some w \<and> sint w = k)"
      unfolding nth by (auto simp: s'(1))
  qed
  moreover have "waiting_ok s' c' \<and> reply_ok show_json (calls s' ! c') \<and> sent_ok s' (calls s' ! c')"
    if "c' < length (calls s')" for c'
  proof (cases "c' = c")
    case True
    have "waiting_ok s c" using inv(1) c(1) by (simp add: mcp_inv_def)
    with True x c(2) show ?thesis
      by (auto simp: nth waiting_ok_def s'(4))
  next
    case False
    from that have len: "c' < length (calls s)" by (simp add: s'(1))
    with inv(1) have old: "waiting_ok s c'" "reply_ok show_json (calls s ! c')" "sent_ok s (calls s ! c')"
      by (simp_all add: mcp_inv_def)
    have "waiting_ok s' c'"
      unfolding waiting_ok_def nth if_not_P [OF False]
    proof
      assume "live (calls s ! c')"
      with old(1) have "\<exists>w. c_id (calls s ! c') = Some w
          \<and> (c_slot (calls s ! c') = None \<longrightarrow> pending s (sint w) = Some c')"
        by (simp only: waiting_ok_def simp_thms)
      then obtain w' where w': "c_id (calls s ! c') = Some w'"
        "c_slot (calls s ! c') = None \<longrightarrow> pending s (sint w') = Some c'"
        by (elim exE conjE) (rule that)
      have "sint w' \<noteq> sint w" using other [OF False len w'(1)] unfolding sint_eq_iff .
      then have "pending s' (sint w') = pending s (sint w')" by (simp add: s'(4))
      with w' show "\<exists>w. c_id (calls s ! c') = Some w
          \<and> (c_slot (calls s ! c') = None \<longrightarrow> pending s' (sint w) = Some c')"
        by simp
    qed
    with old(2) sent_ok_grow [OF old(3) s'(3)] False show ?thesis by (simp add: nth)
  qed
  ultimately show ?thesis
    using inv(1) by (simp add: mcp_inv_def ids_in_order_def same s'(2))
qed

section \<open>Every step keeps the invariant\<close>

lemma logs_grow_refl [simp]: "channels s' = channels s \<Longrightarrow> logs_grow s s'"
  by (auto simp: logs_grow_def)

lemma chan_send_frame:
  assumes "chan_send u m s = Some (ok, s')"
  shows "logs_grow s s' \<and> calls s' = calls s \<and> pending s' = pending s \<and> next_id s' = next_id s
    \<and> sessions s' = sessions s \<and> primary s' = primary s
    \<and> (ok \<longrightarrow> (\<exists>ch. channels s' u = Some ch \<and> m \<in> set (ch_log ch)))"
  using assms by (auto simp: chan_send_def logs_grow_def split: option.splits if_splits)

lemma channel_ops_frame:
  "logs_grow s (client_read u s)" "logs_grow s (client_gone u s)"
  "channels s u = None \<Longrightarrow> logs_grow s (sse_handler u s)"
  "calls (client_read u s) = calls s" "calls (client_gone u s) = calls s" "calls (sse_handler u s) = calls s"
  "pending (client_read u s) = pending s" "pending (client_gone u s) = pending s"
  "pending (sse_handler u s) = pending s"
  "next_id (client_read u s) = next_id s" "next_id (client_gone u s) = next_id s"
  "next_id (sse_handler u s) = next_id s"
  by (auto simp: client_read_def client_gone_def sse_handler_def logs_grow_def split: option.split)

lemma mcp_inv_call:
  assumes "mcp_inv show_json s" "c < length (calls s)"
  shows "waiting_ok s c" "reply_ok show_json (calls s ! c)" "sent_ok s (calls s ! c)"
  using assms by (auto simp: mcp_inv_def)

lemma mcp_inv_begin:
  assumes inv: "mcp_inv show_json s" and few: "length (minted s) < 18446744073709551615"
  shows "mcp_inv show_json (sample_begin prompt sys max_tokens s)"
proof (cases "primary s")
  case None
  then show ?thesis
    using inv
    by (auto simp: mcp_inv_def sample_begin_def ids_in_order_def minted_def List.map_filter_simps
        pending_ok_def waiting_ok_def reply_ok_def sent_ok_def nth_append live_def less_Suc_eq)
next
  case (Some u)
  let ?s' = "sample_begin prompt sys max_tokens s" and ?n = "length (calls s)"
  have ids: "ids_in_order s" using inv by (simp add: mcp_inv_def)
  have fresh: "next_id s \<notin> set (minted s)" by (rule minted_distinct [OF ids few])
  have minted': "minted ?s' = minted s @ [next_id s]"
    by (simp add: minted_def sample_begin_def Some Let_def List.map_filter_simps)
  have "ids_in_order ?s'"
    using ids unfolding ids_in_order_def minted' by (simp add: sample_begin_def Some Let_def)
  moreover have "pending_ok ?s'"
    using inv unfolding mcp_inv_def pending_ok_def
    by (auto simp: sample_begin_def Some Let_def nth_append live_def less_Suc_eq)
  moreover have "waiting_ok ?s' c \<and> reply_ok show_json (calls ?s' ! c) \<and> sent_ok ?s' (calls ?s' ! c)"
    if "c < length (calls ?s')" for c
  proof (cases "c = ?n")
    case True
    then show ?thesis
      by (simp add: waiting_ok_def reply_ok_def sent_ok_def sample_begin_def Some Let_def live_def
          sampling_request_def)
  next
    case False
    with that have c: "c < ?n" by (simp add: sample_begin_def Some Let_def)
    have "sint w \<noteq> sint (next_id s)" if "c_id (calls s ! c) = Some w" for w
      using map_filter_mem [of c "calls s" c_id w, OF c that] fresh unfolding sint_eq_iff minted_def by blast
    then have "waiting_ok ?s' c"
      using mcp_inv_call(1) [OF inv c] c
      by (auto simp: waiting_ok_def sample_begin_def Some Let_def nth_append)
    moreover have "sent_ok ?s' (calls s ! c)"
      using mcp_inv_call(3) [OF inv c] by (rule sent_ok_grow) (simp add: sample_begin_def Some Let_def)
    ultimately show ?thesis
      using mcp_inv_call(2) [OF inv c] c by (simp add: sample_begin_def Some Let_def nth_append)
  qed
  ultimately show ?thesis by (simp add: mcp_inv_def)
qed

lemma live_id:
  assumes "mcp_inv show_json s" "c < length (calls s)" "live (calls s ! c)"
  obtains w where "c_id (calls s ! c) = Some w"
  using mcp_inv_call(1) [OF assms(1,2)] assms(3) by (auto simp: waiting_ok_def)

lemma drop_none [simp]: "f k = None \<Longrightarrow> f(k := None) = f"
  by auto

lemma mcp_inv_send:
  assumes inv: "mcp_inv show_json s" "distinct (minted s)" and c: "c < length (calls s)"
    and step: "sample_send c s = Some s'"
  shows "mcp_inv show_json s'"
proof -
  from step obtain u req where ph: "c_phase (calls s ! c) = Sending u req"
    by (auto simp: sample_send_def split: call_phase.splits)
  from step ph obtain ok s1 where send: "chan_send u (Message_Event req) s = Some (ok, s1)"
    by (auto simp: sample_send_def split: option.splits)
  note frame = chan_send_frame [OF send]
  have lv: "live (calls s ! c)" by (simp add: live_def ph)
  then obtain w where w: "c_id (calls s ! c) = Some w" by (rule live_id [OF inv(1) c])
  have answered: "pending s (sint w) = None" if "c_slot (calls s ! c) \<noteq> None"
    using pending_answered [OF inv c w] that by blast
  note old = mcp_inv_call [OF inv(1) c]
  show ?thesis
  proof (cases ok)
    case True
    let ?x = "(calls s ! c)\<lparr>c_phase := Waiting u req\<rparr>"
    have s': "s' = set_phase c (Waiting u req) s1"
      using step ph send True by (simp add: sample_send_def)
    have sent: "sent_ok s' ?x"
      using old(3) frame True by (auto simp: sent_ok_def ph s' set_phase_def)
    show ?thesis
      by (rule mcp_inv_update [OF inv c w, of _ ?x])
        (use frame old(2) sent w lv answered in
          \<open>auto simp: s' set_phase_def logs_grow_def reply_ok_def live_def ph\<close>)
  next
    case False
    let ?x = "(calls s ! c)\<lparr>c_phase := Returned (Inl ''SSE session closed before sampling request sent'')\<rparr>"
    have s': "s' = set_phase c (Returned (Inl ''SSE session closed before sampling request sent''))
        (drop_pending (Some w) s1)"
      using step ph send False w by (simp add: sample_send_def)
    show ?thesis
      by (rule mcp_inv_update [OF inv c w, of _ ?x])
        (use frame old(2) w lv in
          \<open>auto simp: s' set_phase_def drop_pending_def logs_grow_def reply_ok_def live_def sent_ok_def\<close>)
  qed
qed

lemma mcp_inv_wake:
  assumes inv: "mcp_inv show_json s" "distinct (minted s)" and c: "c < length (calls s)"
    and step: "sample_wake show_json c s = Some s'"
  shows "mcp_inv show_json s'"
proof -
  from step obtain u req b where ph: "c_phase (calls s ! c) = Waiting u req" "c_slot (calls s ! c) = Some b"
    and s': "s' = set_phase c (Returned (sample_result show_json b)) s"
    by (auto simp: sample_wake_def split: call_phase.splits option.splits)
  have lv: "live (calls s ! c)" by (simp add: live_def ph)
  then obtain w where w: "c_id (calls s ! c) = Some w" by (rule live_id [OF inv(1) c])
  have "pending s (sint w) = None" using pending_answered [OF inv c w] ph by simp
  then show ?thesis
    by (intro mcp_inv_update [OF inv c w, of _ "(calls s ! c)\<lparr>c_phase := Returned (sample_result show_json b)\<rparr>"])
      (use mcp_inv_call(2) [OF inv(1) c] w lv ph in
        \<open>auto simp: s' set_phase_def reply_ok_def live_def sent_ok_def\<close>)
qed

lemma mcp_inv_timeout:
  assumes inv: "mcp_inv show_json s" "distinct (minted s)" and c: "c < length (calls s)"
    and step: "sample_timeout c s = Some s'"
  shows "mcp_inv show_json s'"
proof -
  from step obtain u req where ph: "c_phase (calls s ! c) = Waiting u req"
    and s': "s' = set_phase c (Returned (Inl ''sampling timed out (60s)'')) (drop_pending (c_id (calls s ! c)) s)"
    by (auto simp: sample_timeout_def split: call_phase.splits option.splits)
  have lv: "live (calls s ! c)" by (simp add: live_def ph)
  then obtain w where w: "c_id (calls s ! c) = Some w" by (rule live_id [OF inv(1) c])
  show ?thesis
    by (rule mcp_inv_update [OF inv c w, of _ "(calls s ! c)\<lparr>c_phase := Returned (Inl ''sampling timed out (60s)'')\<rparr>"])
      (use mcp_inv_call(2) [OF inv(1) c] w lv in
        \<open>auto simp: s' set_phase_def drop_pending_def reply_ok_def live_def sent_ok_def\<close>)
qed

lemma sample_closed_never:
  assumes "mcp_inv show_json s" "c < length (calls s)"
  shows "sample_closed c s = None"
  using mcp_inv_call(1) [OF assms]
  by (auto simp: sample_closed_def waiting_ok_def live_def split: call_phase.split option.split)

lemma mcp_inv_reply:
  assumes inv: "mcp_inv show_json s" "distinct (minted s)"
  shows "mcp_inv show_json (snd (post_reply u body s))"
proof (cases "snd (post_reply u body s) = s")
  case False
  then obtain k c where k: "reply_id body = Some k" "pending s k = Some c"
    and s': "snd (post_reply u body s) = deliver c body (s\<lparr>pending := (pending s)(k := None)\<rparr>)"
    by (auto simp: post_reply_def split: option.splits)
  from inv(1) k(2) obtain w where c: "c < length (calls s)" "live (calls s ! c)" "c_slot (calls s ! c) = None"
    and w: "c_id (calls s ! c) = Some w" "sint w = k"
    unfolding mcp_inv_def pending_ok_def by blast
  have s'': "snd (post_reply u body s) = s\<lparr>pending := (pending s)(sint w := None),
      calls := (calls s)[c := (calls s ! c)\<lparr>c_slot := Some body\<rparr>]\<rparr>"
    using c(2) w(2) by (auto simp: s' deliver_def live_def split: call_phase.split)
  show ?thesis
    unfolding s''
    by (rule mcp_inv_update [OF inv c(1) w(1), of _ "(calls s ! c)\<lparr>c_slot := Some body\<rparr>"])
      (use mcp_inv_call(2,3) [OF inv(1) c(1)] c w k(1) in
        \<open>auto simp: reply_ok_def live_def sent_ok_def\<close>)
qed (use inv in simp)

lemma minted_few: "length (calls s) < 18446744073709551615 \<Longrightarrow> length (minted s) < 18446744073709551615"
  using length_map_filter_le [of c_id "calls s"] by (simp add: minted_def)

lemma mcp_step_inv:
  assumes "mcp_step show_json s s'" "mcp_inv show_json s" "length (calls s) < 18446744073709551615"
  shows "mcp_inv show_json s'"
proof -
  have ids: "ids_in_order s" using assms(2) by (simp add: mcp_inv_def)
  note few = minted_few [OF assms(3)]
  note inv = assms(2) minted_distinct(1) [OF ids few]
  note same = mcp_inv_channels [OF inv(1)]
  from assms(1) show ?thesis
  proof cases
    case (connect u)
    then show ?thesis using same [OF channel_ops_frame(3)] channel_ops_frame by simp
  next
    case (read u)
    then show ?thesis using same [OF channel_ops_frame(1)] channel_ops_frame by simp
  next
    case (gone u)
    then show ?thesis using same [OF channel_ops_frame(2)] channel_ops_frame by simp
  next
    case (notify u e ok)
    then show ?thesis using chan_send_frame [OF notify] same by blast
  next
    case (respond u rid outcome ok)
    then show ?thesis using chan_send_frame [OF respond] same by blast
  next
    case begin_call
    then show ?thesis using mcp_inv_begin [OF inv(1) few] by simp
  next
    case (send c)
    then show ?thesis using mcp_inv_send [OF inv] by simp
  next
    case (wake c)
    then show ?thesis using mcp_inv_wake [OF inv] by simp
  next
    case (timeout c)
    then show ?thesis using mcp_inv_timeout [OF inv] by simp
  next
    case (closed c)
    then show ?thesis using sample_closed_never [OF inv(1)] by simp
  next
    case reply
    then show ?thesis using mcp_inv_reply [OF inv] by simp
  qed
qed

lemma mcp_step_calls: "mcp_step show_json s s' \<Longrightarrow> length (calls s) \<le> length (calls s')"
proof (induction rule: mcp_step.induct)
  case (notify u e s ok s')
  then show ?case using chan_send_frame [OF notify] by simp
next
  case (respond u rid outcome s ok s')
  then show ?case using chan_send_frame [OF respond] by simp
next
  case (send c s s')
  then show ?case
    by (auto simp: sample_send_def set_phase_def drop_pending_def dest!: chan_send_frame
        split: call_phase.splits option.splits prod.splits bool.splits)
qed (auto simp: sse_handler_def client_read_def client_gone_def sample_begin_def Let_def sample_wake_def
    sample_timeout_def sample_closed_def set_phase_def drop_pending_def post_reply_def deliver_def
    split: option.splits call_phase.splits if_splits)

lemma mcp_start_inv: "mcp_inv show_json mcp_start"
  by (simp add: mcp_inv_def mcp_start_def ids_in_order_def minted_def pending_ok_def List.map_filter_simps)

text \<open>Fewer calls than there are ids.\<close>

definition few_calls :: "mcp \<Rightarrow> bool" where
  "few_calls s \<longleftrightarrow> length (calls s) < 18446744073709551615"

interpretation sampling: invariant_system mcp_start "mcp_step show_json" few_calls "mcp_inv show_json"
  for show_json
proof unfold_locales
  show "mcp_inv show_json mcp_start" by (rule mcp_start_inv)
next
  fix s s' assume "mcp_step show_json s s'"
  then show "few_calls s' \<Longrightarrow> few_calls s" "few_calls s \<Longrightarrow> mcp_inv show_json s \<Longrightarrow> mcp_inv show_json s'"
    using mcp_step_calls mcp_step_inv unfolding few_calls_def by (fastforce, blast)
qed

lemma mcp_reachable_inv:
  "mcp_reachable show_json s \<Longrightarrow> length (calls s) < 18446744073709551615 \<Longrightarrow> mcp_inv show_json s"
  using sampling.reachable_inv unfolding few_calls_def .

text \<open>Sessions: every entry leads to the channel of its own id.\<close>

definition sessions_ok :: "mcp \<Rightarrow> bool" where
  "sessions_ok s \<longleftrightarrow> (\<forall>u. sessions s u \<noteq> None \<longrightarrow> sessions s u = Some u \<and> channels s u \<noteq> None)"

lemma step_sessions:
  assumes "mcp_step show_json s s'"
  shows "(\<exists>u. channels s u = None \<and> sessions s' = (sessions s)(u \<mapsto> u) \<and> channels s' u \<noteq> None
      \<and> (\<forall>w. w \<noteq> u \<longrightarrow> channels s' w = channels s w))
    \<or> (sessions s' = sessions s \<and> (\<forall>w. channels s w \<noteq> None \<longrightarrow> channels s' w \<noteq> None))"
  using assms
proof cases
  case (connect u)
  then show ?thesis by (intro disjI1 exI [of _ u]) (simp add: sse_handler_def)
next
  case (notify u e ok)
  then show ?thesis by (auto simp: chan_send_def split: option.splits if_splits)
next
  case (respond u rid outcome ok)
  then show ?thesis by (auto simp: chan_send_def split: option.splits if_splits)
next
  case (send c)
  then show ?thesis
    by (intro disjI2) (auto simp: sample_send_def set_phase_def drop_pending_def chan_send_def
      split: call_phase.splits option.splits if_splits)
next
  case (closed c)
  then show ?thesis
    by (auto simp: sample_closed_def set_phase_def split: call_phase.splits option.splits if_splits)
qed (auto simp: client_read_def client_gone_def sample_begin_def Let_def sample_wake_def sample_timeout_def
    set_phase_def drop_pending_def post_reply_def deliver_def split: option.splits call_phase.splits)

interpretation session_table: plain_invariant mcp_start "mcp_step show_json" sessions_ok
  for show_json
proof unfold_locales
  show "sessions_ok mcp_start" by (simp add: sessions_ok_def mcp_start_def)
next
  fix s s' assume "mcp_step show_json s s'" "sessions_ok s"
  with step_sessions [OF this(1)] show "sessions_ok s'"
    unfolding sessions_ok_def by (elim disjE exE conjE) auto
qed

section \<open>Properties\<close>


text \<open>One client connects, and one call registers its request.\<close>

definition one_call :: mcp where
  "one_call = sample_begin ''hello'' None 200 (sse_handler 7 mcp_start)"

lemma one_call_reachable: "mcp_reachable show_json one_call"
  unfolding one_call_def
  by (rule mcp_follow [OF mcp_follow [OF mcp_initial mcp_step.connect]
        mcp_step.begin_call]) (simp add: mcp_start_def)

lemma one_call_simps:
  "calls one_call = [\<lparr>c_id = Some 1, c_phase = Sending 7 (sampling_request 1 ''hello'' None 200), c_slot = None\<rparr>]"
  "pending one_call = [1 \<mapsto> 0]" "sessions one_call = [7 \<mapsto> 7]" "primary one_call = Some 7"
  "channels one_call = [7 \<mapsto> \<lparr>ch_log = [Endpoint_Event 7], ch_read = 0, ch_open = True\<rparr>]"
  by (simp_all add: one_call_def sample_begin_def sse_handler_def mcp_start_def Let_def)


text \<open>C8. A reply wakes exactly the call it answers, and once: posting a reply to a pending id on any
  known session is accepted, hands the body to that call and to no other, and takes the id out
  of the table, after which the call returns what the reply says; posting it again changes nothing.\<close>

theorem reply_wakes_its_call:
  assumes "mcp_reachable show_json s" "length (calls s) < 18446744073709551615"
    "sessions s u = Some v" "reply_id body = Some k" "pending s k = Some c"
  shows "\<exists>s'. post_reply u body s = (Accepted, s')
    \<and> pending s' = (pending s)(k := None)
    \<and> calls s' = (calls s)[c := (calls s ! c)\<lparr>c_slot := Some body\<rparr>]
    \<and> post_reply u body s' = (Accepted, s')
    \<and> (\<forall>w req. c_phase (calls s ! c) = Waiting w req \<longrightarrow>
         (\<exists>s''. sample_wake show_json c s' = Some s''
            \<and> c_phase (calls s'' ! c) = Returned (sample_result show_json body)))"
proof -
  have inv: "mcp_inv show_json s" by (rule mcp_reachable_inv [OF assms(1,2)])
  with assms(5) have c: "c < length (calls s)" "live (calls s ! c)"
    unfolding mcp_inv_def pending_ok_def by blast+
  let ?s' = "s\<lparr>pending := (pending s)(k := None), calls := (calls s)[c := (calls s ! c)\<lparr>c_slot := Some body\<rparr>]\<rparr>"
  have "post_reply u body s = (Accepted, ?s')"
    using assms(3-5) c(2) by (auto simp: post_reply_def deliver_def live_def split: call_phase.split)
  moreover have "post_reply u body ?s' = (Accepted, ?s')"
    using assms(3,4) by (simp add: post_reply_def)
  moreover have "\<exists>s''. sample_wake show_json c ?s' = Some s''
      \<and> c_phase (calls s'' ! c) = Returned (sample_result show_json body)"
    if "c_phase (calls s ! c) = Waiting w req" for w req
    using c(1) that by (simp add: sample_wake_def set_phase_def)
  ultimately show ?thesis by auto
qed

theorem reply_wakes_its_call_witness:
  "\<exists>s'. post_reply 7 (JObj [(''id'', JInt 1), (''result'', JNull)]) one_call = (Accepted, s')
    \<and> pending s' = (pending one_call)(1 := None)"
proof -
  have "length (calls one_call) < 18446744073709551615" by (simp add: one_call_simps)
  from reply_wakes_its_call [OF one_call_reachable this, of 7 7 "JObj [(''id'', JInt 1), (''result'', JNull)]" 1 0]
  show ?thesis by (auto simp: one_call_simps reply_id_def)
qed

text \<open>C9. Where a call can get stuck: a call that waits can always return, by its reply or by the
  timeout, and never finds its waiter dropped; a call that still has to push its request cannot
  exactly while its session's client keeps the stream open with 64 events unread, and there
  neither the timeout nor a reply ends it.\<close>

theorem sample_progress:
  assumes "mcp_reachable show_json s" "length (calls s) < 18446744073709551615" "c < length (calls s)"
  shows "(\<forall>u req. c_phase (calls s ! c) = Waiting u req \<longrightarrow>
        (sample_wake show_json c s \<noteq> None \<or> sample_timeout c s \<noteq> None) \<and> sample_closed c s = None)
    \<and> (\<forall>u req. c_phase (calls s ! c) = Sending u req \<longrightarrow>
        (sample_send c s = None \<longleftrightarrow>
          (\<exists>ch. channels s u = Some ch \<and> ch_open ch \<and> 64 \<le> length (ch_log ch) - ch_read ch))
        \<and> sample_timeout c s = None \<and> sample_wake show_json c s = None)"
proof -
  have "mcp_inv show_json s" by (rule mcp_reachable_inv [OF assms(1,2)])
  from sample_closed_never [OF this assms(3)] show ?thesis
    by (auto simp: sample_wake_def sample_timeout_def sample_send_def chan_send_def SSE_CAPACITY_def
        split: option.split)
qed

theorem sample_progress_witness:
  "sample_send 0 one_call \<noteq> None \<and> sample_timeout 0 one_call = None"
proof -
  have "length (calls one_call) < 18446744073709551615" "0 < length (calls one_call)"
    by (simp_all add: one_call_simps)
  from sample_progress [OF one_call_reachable this] show ?thesis
    by (simp add: one_call_simps)
qed

text \<open>C26. Sessions are never forgotten: once a client has connected its entry stays through every step
  of the server, so that after the client is gone its posts are still accepted although nothing can
  be sent to it any more, and it stays the target of sampling, which then fails, until another
  client connects.\<close>

theorem sessions_never_removed:
  assumes "mcp_reachable show_json s" "sessions s u \<noteq> None"
  shows "(\<forall>s'. mcp_step show_json s s' \<longrightarrow> sessions s' u = sessions s u)
    \<and> sessions s u = Some u
    \<and> fst (post_reply u body (client_gone u s)) = Accepted
    \<and> chan_send u m (client_gone u s) = Some (False, client_gone u s)
    \<and> primary (client_gone u s) = primary s"
proof -
  have inv: "sessions_ok s" by (rule session_table.plain.reachable_inv [OF assms(1) TrueI])
  with assms(2) have u: "sessions s u = Some u" "channels s u \<noteq> None"
    unfolding sessions_ok_def by blast+
  have "sessions s' u = sessions s u" if "mcp_step show_json s s'" for s'
    using step_sessions [OF that] u by auto
  moreover have "fst (post_reply u body (client_gone u s)) = Accepted"
    using u(1) by (auto simp: post_reply_def client_gone_def split: option.split)
  moreover have "chan_send u m (client_gone u s) = Some (False, client_gone u s)"
    "primary (client_gone u s) = primary s"
    by (auto simp: chan_send_def client_gone_def split: option.split)
  ultimately show ?thesis using u(1) by simp
qed

theorem sessions_never_removed_witness:
  "fst (post_reply 7 JNull (client_gone 7 one_call)) = Accepted
    \<and> primary (client_gone 7 one_call) = Some 7"
proof -
  have "sessions one_call 7 \<noteq> None" by (simp add: one_call_simps)
  from sessions_never_removed [OF one_call_reachable this, where body = JNull] show ?thesis
    by (simp add: one_call_simps)
qed

section \<open>What goes over a session's stream\<close>

text \<open>The three kinds of JSON-RPC message a server may send.\<close>

inductive rpc_message :: "json \<Rightarrow> bool" where
  request: "rpc_message (JObj [(''jsonrpc'', JStr ''2.0''), (''id'', JInt i), (''method'', JStr m), (''params'', JObj ps)])"
| notification: "rpc_message (JObj [(''jsonrpc'', JStr ''2.0''), (''method'', JStr m), (''params'', JObj ps)])"
| response: "rpc_message (JObj [(''jsonrpc'', JStr ''2.0''), (''id'', rid), (''result'', outcome)])"

text \<open>A stream: the endpoint event of its own session, then messages.\<close>

definition stream_ok :: "uuid \<Rightarrow> sse list \<Rightarrow> bool" where
  "stream_ok u es \<longleftrightarrow> (\<exists>ms. es = Endpoint_Event u # map Message_Event ms \<and> (\<forall>m\<in>set ms. rpc_message m))"

lemma stream_ok_snoc: "stream_ok u es \<Longrightarrow> rpc_message m \<Longrightarrow> stream_ok u (es @ [Message_Event m])"
  unfolding stream_ok_def by (elim exE conjE, rename_tac ms, rule_tac x = "ms @ [m]" in exI) auto

definition wire_ok :: "mcp \<Rightarrow> bool" where
  "wire_ok s \<longleftrightarrow> (\<forall>u ch. channels s u = Some ch \<longrightarrow> stream_ok u (ch_log ch))
     \<and> (\<forall>x\<in>set (calls s). \<forall>u req. c_phase x = Sending u req \<longrightarrow> rpc_message req)"

lemma rpc_message_sent [simp, intro]:
  "rpc_message (notification_payload e)" "rpc_message (rpc_response rid outcome)"
  "rpc_message (sampling_request w prompt sys n)"
  by (auto simp: notification_payload_def rpc_response_def sampling_request_def
      intro: rpc_message.intros)

lemma chan_send_wire:
  assumes "chan_send u (Message_Event m) s = Some (ok, s')" "rpc_message m" "wire_ok s"
  shows "wire_ok s'"
  using assms stream_ok_snoc [OF _ assms(2)]
  by (auto simp: chan_send_def wire_ok_def split: option.splits if_splits)

lemma wire_ok_phase:
  assumes "wire_ok s" "\<forall>u req. p \<noteq> Sending u req"
  shows "wire_ok (set_phase c p s)"
  using assms by (auto simp: wire_ok_def set_phase_def dest!: subsetD [OF set_update_subset_insert])

lemma wire_ok_drop: "wire_ok s \<Longrightarrow> wire_ok (drop_pending r s)"
  by (simp add: wire_ok_def drop_pending_def split: option.split)

lemma mcp_step_wire:
  assumes "mcp_step show_json s s'" "wire_ok s"
  shows "wire_ok s'"
  using assms(1)
proof cases
  case (connect u)
  with assms(2) show ?thesis
    by (auto simp: wire_ok_def sse_handler_def stream_ok_def)
next
  case (read u)
  with assms(2) show ?thesis
    by (auto simp: wire_ok_def client_read_def split: option.split)
next
  case (gone u)
  with assms(2) show ?thesis
    by (auto simp: wire_ok_def client_gone_def split: option.split)
next
  case (notify u e ok)
  from chan_send_wire [OF this _ assms(2)] show ?thesis by simp
next
  case (respond u rid outcome ok)
  from chan_send_wire [OF this _ assms(2)] show ?thesis by simp
next
  case (begin_call prompt sys n)
  with assms(2) show ?thesis
    by (auto simp: wire_ok_def sample_begin_def Let_def split: option.split)
next
  case (send c)
  obtain u req where ph: "c_phase (calls s ! c) = Sending u req"
    using send(2) by (auto simp: sample_send_def split: call_phase.splits)
  with assms(2) send(1) have req: "rpc_message req"
    unfolding wire_ok_def by (metis nth_mem)
  obtain ok s1 where s1: "chan_send u (Message_Event req) s = Some (ok, s1)"
    using send(2) ph by (auto simp: sample_send_def split: option.splits)
  have "wire_ok s1" by (rule chan_send_wire [OF s1 req assms(2)])
  with send(2) ph s1 show ?thesis
    by (auto simp: sample_send_def intro!: wire_ok_phase wire_ok_drop split: bool.splits)
next
  case (wake c)
  with assms(2) show ?thesis
    by (auto simp: sample_wake_def intro!: wire_ok_phase split: call_phase.splits option.splits)
next
  case (timeout c)
  with assms(2) show ?thesis
    by (auto simp: sample_timeout_def intro!: wire_ok_phase wire_ok_drop split: call_phase.splits option.splits)
next
  case (closed c)
  with assms(2) show ?thesis
    by (auto simp: sample_closed_def intro!: wire_ok_phase split: call_phase.splits option.splits if_splits)
next
  case (reply u body)
  have "wire_ok (deliver c body t)" if "wire_ok t" for c t
  proof (cases "c < length (calls t)")
    case True
    then have "calls t ! c \<in> set (calls t)" by simp
    with that show ?thesis
      by (auto simp: deliver_def wire_ok_def dest!: subsetD [OF set_update_subset_insert] split: call_phase.splits)
  qed (use that in \<open>auto simp: deliver_def wire_ok_def list_update_beyond not_less split: call_phase.splits\<close>)
  moreover have "wire_ok (s\<lparr>pending := f\<rparr>)" for f
    using assms(2) by (simp add: wire_ok_def)
  ultimately show ?thesis
    using reply assms(2) by (simp add: post_reply_def split: option.split)
qed

interpretation wires: plain_invariant mcp_start "mcp_step show_json" wire_ok
  for show_json
  by unfold_locales (simp add: wire_ok_def mcp_start_def, rule mcp_step_wire)

text \<open>C25. Every stream a client can ever see is well typed: it starts with the endpoint event that
  carries the client's own session id, and after it comes nothing but complete JSON-RPC 2.0
  messages, each a request with an integer id, a notification without one or a response, however
  the forwarders, the request handlers and the sampling calls interleave.\<close>

theorem streams_well_typed:
  assumes "mcp_reachable show_json s" "channels s u = Some ch"
  shows "\<exists>ms. ch_log ch = Endpoint_Event u # map Message_Event ms \<and> (\<forall>m\<in>set ms. rpc_message m)"
proof -
  have "wire_ok s" by (rule wires.plain.reachable_inv [OF assms(1) TrueI])
  with assms(2) show ?thesis by (simp add: wire_ok_def stream_ok_def)
qed

theorem streams_well_typed_witness:
  "\<exists>ch ms. channels one_call 7 = Some ch \<and> ch_log ch = Endpoint_Event 7 # map Message_Event ms"
proof -
  obtain ch where "channels one_call 7 = Some ch" by (simp add: one_call_simps)
  with streams_well_typed [OF one_call_reachable this] show ?thesis by blast
qed

end
