(* ===== verification/Mcp_Server.thy ===== *)
theory Mcp_Server
  imports Mcp_Sampling
begin

text \<open>
  What the MCP server answers (\<^verbatim>\<open>backend/src/mcp.rs\<close>): the two HTTP endpoints, the
  dispatch of JSON-RPC methods and the tools.  The calls to the device and to the sampling client
  are parameters with their outcomes; what the tools read of the server's state is the
  \<^typ>\<open>mcp_view\<close> of the recorder.
\<close>

section \<open>Surroundings\<close>

text \<open>
  The RPC handle (an error is its debug text), the outcome of \<open>sample\<close>, the measured time of an
  echo, and the text forms that the standard library and \<open>serde_json\<close> give to values.
\<close>

record server_env =
  push_chat :: "string \<Rightarrow> string option"
  rpc_echo :: "string \<Rightarrow> (string, string) result"
  echo_ms :: nat
  run_sample :: "string \<Rightarrow> string option \<Rightarrow> u32 \<Rightarrow> (string, string) result"
  debug_str :: "string \<Rightarrow> string"
  pretty :: "json \<Rightarrow> string"
  serde_error :: "json \<Rightarrow> string"


section \<open>Tools\<close>

text \<open>A tool returns its text or an error, and the events it published.\<close>

type_synonym tool_outcome = "(string, string) result \<times> backend_event list"

definition tool_chat_send :: "server_env \<Rightarrow> json \<Rightarrow> tool_outcome" where
  "tool_chat_send env args =
     (case Option.bind (jget ''text'' args) as_str of
        None \<Rightarrow> (Inl ''missing 'text' argument'', [])
      | Some t \<Rightarrow>
          (case push_chat env t of
             Some e \<Rightarrow> (Inl (''chat push failed: '' @ e), [])
           | None \<Rightarrow> (Inr (''pushed: '' @ debug_str env t), [Chat_Pushed t])))"

definition status_json :: "status_snapshot \<Rightarrow> json" where
  "status_json s = JObj
     [(''peer_status'', case peer_status_of s of None \<Rightarrow> JNull | Some p \<Rightarrow> JStr (status_name p)),
      (''bt_connected'', JBool (bt_connected s)), (''peer_known'', JBool (peer_known s))]"

definition tool_session_status :: "server_env \<Rightarrow> mcp_view \<Rightarrow> tool_outcome" where
  "tool_session_status env v = (Inr (pretty env (status_json (snapshot v))), [])"

text \<open>\<open>ChatEntry\<close> as derived: the variant names in lower case.\<close>

definition entry_json :: "chat_entry \<Rightarrow> json" where
  "entry_json e = JObj
     [(''direction'', JStr (case ce_direction e of
         Device_To_Backend \<Rightarrow> ''devicetobackend'' | Backend_To_Device \<Rightarrow> ''backendtodevice'')),
      (''text'', JStr (ce_text e))]"

definition history_limit :: "json \<Rightarrow> nat" where
  "history_limit args =
     min (case Option.bind (jget ''limit'' args) as_u64 of None \<Rightarrow> 50 | Some n \<Rightarrow> n) 512"

definition tool_chat_history :: "server_env \<Rightarrow> mcp_view \<Rightarrow> json \<Rightarrow> tool_outcome" where
  "tool_chat_history env v args =
     (let limit = history_limit args; h = history v; n = length h;
          slice = (if n > limit then drop (n - limit) h else h) in
      (Inr (pretty env (JArr (map entry_json slice))), []))"

definition tool_sample :: "server_env \<Rightarrow> json \<Rightarrow> tool_outcome" where
  "tool_sample env args =
     (case Option.bind (jget ''prompt'' args) as_str of
        None \<Rightarrow> (Inl ''missing 'prompt' argument'', [])
      | Some prompt \<Rightarrow>
          (let system_prompt = Option.bind (jget ''system_prompt'' args) as_str;
               max_tokens = word_of_nat
                 (case Option.bind (jget ''max_tokens'' args) as_u64 of None \<Rightarrow> 200 | Some n \<Rightarrow> n) in
           (run_sample env prompt system_prompt max_tokens, [])))"

definition tool_send_echo :: "server_env \<Rightarrow> json \<Rightarrow> tool_outcome" where
  "tool_send_echo env args =
     (case Option.bind (jget ''text'' args) as_str of
        None \<Rightarrow> (Inl ''missing 'text' argument'', [])
      | Some t \<Rightarrow>
          (case rpc_echo env t of
             Inl e \<Rightarrow> (Inl (''echo failed: '' @ e), [])
           | Inr reply \<Rightarrow>
               (Inr (''echo '' @ debug_str env t @ '' '' @ [CHR 0xe2, CHR 0x86, CHR 0x92] @ '' ''
                  @ debug_str env reply @ ''  ('' @ show_nat (echo_ms env) @ '' ms)''),
                [Echo_Handled t reply (echo_ms env)])))"

section \<open>Dispatch\<close>

definition tool_text :: "string \<Rightarrow> bool \<Rightarrow> json" where
  "tool_text t is_error = JObj
     [(''content'', JArr [JObj [(''type'', JStr ''text''), (''text'', JStr t)]]), (''isError'', JBool is_error)]"

definition tool_call :: "server_env \<Rightarrow> mcp_view \<Rightarrow> json \<Rightarrow> json \<times> backend_event list" where
  "tool_call env v params =
     (let name = (case Option.bind (jget ''name'' params) as_str of None \<Rightarrow> '''' | Some n \<Rightarrow> n);
          args = (case jget ''arguments'' params of None \<Rightarrow> JNull | Some a \<Rightarrow> a);
          (outcome, events) =
            (if name = ''chat_send'' then tool_chat_send env args
             else if name = ''session_status'' then tool_session_status env v
             else if name = ''chat_history'' then tool_chat_history env v args
             else if name = ''send_echo'' then tool_send_echo env args
             else if name = ''sample'' then tool_sample env args
             else (Inl (''unknown tool: '' @ name), [])) in
      (case outcome of Inr t \<Rightarrow> tool_text t False | Inl e \<Rightarrow> tool_text e True, events))"






section \<open>HTTP\<close>





section \<open>Posts as steps\<close>

lemma tool_chat_history_slice:
  "tool_chat_history env v args =
     (Inr (pretty env (JArr (map entry_json (take_last (history_limit args) (history v))))), [])"
  by (simp add: tool_chat_history_def take_last_def Let_def)








section \<open>Properties\<close>

text \<open>A device that takes everything, for the witnesses.\<close>

definition willing_env :: server_env where
  "willing_env = \<lparr>push_chat = (\<lambda>_. None), rpc_echo = Inr, echo_ms = 1, run_sample = (\<lambda>p _ _. Inr p),
     debug_str = (\<lambda>s. s), pretty = (\<lambda>j. case j of JArr [JObj [d, (_, JStr t)]] \<Rightarrow> t | _ \<Rightarrow> ''''),
     serde_error = (\<lambda>_. '''')\<rparr>"





text \<open>C16. The history tool tells the truth: on a recorder that kept up it returns the last chat lines of
  both directions in order, as many as the limit asks for, which is 50 when it is absent, negative,
  no integer, or none at all, and never more than 512.\<close>

theorem chat_history_faithful:
  "tool_chat_history env (event_recorder (map Received es) mcp_view_start) args =
      (Inr (pretty env (JArr (map entry_json
         (take_last (history_limit args) (concat (map chat_of es)))))), [])
    \<and> history_limit args =
        (case jget ''limit'' args of Some (JInt i) \<Rightarrow> (if 0 \<le> i \<and> i < 2 ^ 64 then min (nat i) 512 else 50) | _ \<Rightarrow> 50)"
proof -
  let ?v = "event_recorder (map Received es) mcp_view_start"
  have "history_limit args \<le> 512" by (simp add: history_limit_def)
  from take_last_min [OF this] have
    "take_last (history_limit args) (history ?v) = take_last (history_limit args) (concat (map chat_of es))"
    by (simp add: recorder_view)
  then have "tool_chat_history env ?v args = (Inr (pretty env (JArr (map entry_json
         (take_last (history_limit args) (concat (map chat_of es)))))), [])"
    by (simp add: tool_chat_history_slice)
  moreover have "history_limit args =
      (case jget ''limit'' args of Some (JInt i) \<Rightarrow> (if 0 \<le> i \<and> i < 2 ^ 64 then min (nat i) 512 else 50) | _ \<Rightarrow> 50)"
    by (auto simp: history_limit_def split: option.split json.split)
  ultimately show ?thesis by simp
qed

text \<open>What a client sends to call a tool, and what a manifest entry says it must give.\<close>

definition call_params :: "string \<Rightarrow> json \<Rightarrow> json" where
  "call_params name args = JObj [(''name'', JStr name), (''arguments'', args)]"




lemma call_params_simps [simp]:
  "jget ''name'' (call_params name args) = Some (JStr name)"
  "jget ''arguments'' (call_params name args) = Some args"
  by (simp_all add: call_params_def)








lemma history_record_push:
  "take_last 1 (history (fold record_event [Chat_Pushed t] v)) = [\<lparr>ce_direction = Backend_To_Device, ce_text = t\<rparr>]"
proof -
  let ?e = "\<lparr>ce_direction = Backend_To_Device, ce_text = t\<rparr>"
  have "take_last 1 (take_last CHAT_HISTORY_LIMIT (history v @ [?e])) = take_last 1 (history v @ [?e])"
    by (rule take_last_min) (simp add: CHAT_HISTORY_LIMIT_def)
  then show ?thesis by (simp add: chat_log.contents_push) (simp add: take_last_def)
qed

text \<open>C31. What a client pushes it finds in the history: a \<open>chat_send\<close> whose push succeeds reports
  success and emits exactly the event by which the recorder makes the line the newest entry that
  \<open>chat_history\<close> returns; a push that fails is reported with its reason and leaves no trace.\<close>

theorem chat_send_recorded:
  assumes "jget ''text'' args = Some (JStr t)"
  shows "case tool_call env v (call_params ''chat_send'' args) of (outcome, events) \<Rightarrow>
    (case push_chat env t of
       None \<Rightarrow> outcome = tool_text (''pushed: '' @ debug_str env t) False
         \<and> tool_chat_history env (fold record_event events v) (JObj [(''limit'', JInt 1)]) =
             (Inr (pretty env (JArr [entry_json \<lparr>ce_direction = Backend_To_Device, ce_text = t\<rparr>])), [])
     | Some e \<Rightarrow> outcome = tool_text (''chat push failed: '' @ e) True \<and> fold record_event events v = v)"
proof -
  have "tool_call env v (call_params ''chat_send'' args) =
      (case push_chat env t of
         None \<Rightarrow> (tool_text (''pushed: '' @ debug_str env t) False, [Chat_Pushed t])
       | Some e \<Rightarrow> (tool_text (''chat push failed: '' @ e) True, []))"
    using assms by (simp add: tool_call_def tool_chat_send_def split: option.split)
  moreover have "history_limit (JObj [(''limit'', JInt 1)]) = 1"
    by (simp add: history_limit_def)
  ultimately show ?thesis
    using history_record_push [of t v] by (simp add: tool_chat_history_slice split: option.split)
qed

theorem chat_send_recorded_witness:
  "case tool_call willing_env mcp_view_start (call_params ''chat_send'' (JObj [(''text'', JStr ''hi'')])) of
     (outcome, events) \<Rightarrow> outcome = tool_text ''pushed: hi'' False
       \<and> tool_chat_history willing_env (fold record_event events mcp_view_start) (JObj [(''limit'', JInt 1)])
           = (Inr ''hi'', [])"
proof -
  have "jget ''text'' (JObj [(''text'', JStr ''hi'')]) = Some (JStr ''hi'')" by simp
  from chat_send_recorded [OF this, of willing_env mcp_view_start] show ?thesis
    by (simp add: willing_env_def entry_json_def)
qed

text \<open>C33. The token limit of a sampling call is taken modulo 2 to the 32: any limit a client asks for
  below that reaches the model unchanged, even above the 4096 of the manifest, while one of
  exactly 2 to the 32 asks for no tokens at all; without a limit it is 200.\<close>

theorem sample_max_tokens:
  assumes "jget ''prompt'' args = Some (JStr p)"
  shows "\<exists>n sys. tool_sample env args = (run_sample env p sys n, [])
    \<and> Option.bind (jget ''params'' (sampling_request rid p sys n)) (jget ''maxTokens'') =
        Some (JInt (case Option.bind (jget ''max_tokens'' args) as_u64 of
          None \<Rightarrow> 200 | Some k \<Rightarrow> int (k mod 4294967296)))"
proof -
  let ?k = "case Option.bind (jget ''max_tokens'' args) as_u64 of None \<Rightarrow> 200 | Some k \<Rightarrow> k"
  let ?n = "word_of_nat ?k :: u32"
  let ?sys = "Option.bind (jget ''system_prompt'' args) as_str"
  have "tool_sample env args = (run_sample env p ?sys ?n, [])"
    using assms by (simp add: tool_sample_def Let_def)
  moreover have "Option.bind (jget ''params'' (sampling_request rid p ?sys ?n)) (jget ''maxTokens'')
      = Some (JInt (int (?k mod 4294967296)))"
    by (simp add: sampling_request_def unat_of_nat_u32 del: of_nat_unat of_nat_mod)
  moreover have "int (?k mod 4294967296) = (case Option.bind (jget ''max_tokens'' args) as_u64 of
          None \<Rightarrow> 200 | Some k \<Rightarrow> int (k mod 4294967296))"
    by (simp split: option.split)
  ultimately show ?thesis by metis
qed

theorem sample_max_tokens_witness:
  "\<exists>n sys. tool_sample willing_env (JObj [(''prompt'', JStr ''p''), (''max_tokens'', JInt 4294967296)]) =
      (run_sample willing_env ''p'' sys n, [])
    \<and> Option.bind (jget ''params'' (sampling_request 1 ''p'' sys n)) (jget ''maxTokens'') = Some (JInt 0)"
proof -
  have "jget ''prompt'' (JObj [(''prompt'', JStr ''p''), (''max_tokens'', JInt 4294967296)]) = Some (JStr ''p'')"
    by simp
  from sample_max_tokens [OF this, of willing_env 1] show ?thesis by simp
qed

end
