(* ===== verification/Backend_Platform.thy ===== *)
theory Backend_Platform
  imports Backend_Serve Mcp_Server "HOL-Library.Multiset"
begin

text \<open>
  The platform the backend gives to the QL runtime (\<^verbatim>\<open>backend/src/lib.rs\<close>,
  \<open>BackendPlatform\<close> and \<open>Plumbing\<close>): the channels between the runtime's callbacks and
  the rest of the program, the callbacks as operations on them, and the loop that serves the
  streams the device opens.  The cryptographic callbacks hand their arguments to the library and
  have no model.
\<close>

section \<open>Channels\<close>

text \<open>
  An interface for unbounded queues: while the receiver is there an item put is the newest, and
  afterwards nothing is put any more.
\<close>

locale unbounded_queue =
  fixes put :: "'a \<Rightarrow> 'q \<Rightarrow> 'q"
    and items :: "'q \<Rightarrow> 'a list"
    and alive :: "'q \<Rightarrow> bool"
  assumes items_put: "alive q \<Longrightarrow> items (put a q) = items q @ [a]"
    and alive_put: "alive (put a q) = alive q"
    and put_dead: "\<not> alive q \<Longrightarrow> put a q = q"
begin

lemma alive_fold: "alive (fold put as q) = alive q"
  by (induction as arbitrary: q) (simp_all add: alive_put)

lemma items_fold: "items (fold put as q) = items q @ (if alive q then as else [])"
  by (induction as arbitrary: q) (simp_all add: items_put alive_put put_dead)

end

text \<open>A channel of \<^verbatim>\<open>async_channel::unbounded\<close>: what is queued, and whether it has a receiver.\<close>

record 'a chan =
  queued :: "'a list"
  receiver :: bool

definition new_chan :: "'a chan" where
  "new_chan = \<lparr>queued = [], receiver = True\<rparr>"

text \<open>\<open>send\<close> and \<open>try_send\<close>: an error exactly without a receiver.\<close>

definition chan_put :: "'a \<Rightarrow> 'a chan \<Rightarrow> bool \<times> 'a chan" where
  "chan_put a q = (if receiver q then (True, q\<lparr>queued := queued q @ [a]\<rparr>) else (False, q))"

interpretation queue: unbounded_queue "\<lambda>a q. snd (chan_put a q)" queued receiver
  by unfold_locales (simp_all add: chan_put_def)

section \<open>The platform\<close>

text \<open>
  \<open>pf_inbound\<close> says whether the receiver has not been taken yet, \<open>pf_published\<close> what was sent
  on the event broadcast when the platform carries one; \<open>run\<close> keeps a receiver of it, so that
  sending does not fail.
\<close>

record ('b, 's) platform =
  pf_outbound :: "bytes chan"
  pf_inbound :: bool
  pf_status :: "peer_status chan"
  pf_peer :: "'b chan"
  pf_streams :: "'s chan"
  pf_mcp_events :: bool
  pf_published :: "backend_event list"

definition new_platform :: "('b, 's) platform" where
  "new_platform = \<lparr>pf_outbound = new_chan, pf_inbound = True, pf_status = new_chan, pf_peer = new_chan,
     pf_streams = new_chan, pf_mcp_events = False, pf_published = []\<rparr>"

definition with_mcp_events :: "('b, 's) platform \<Rightarrow> ('b, 's) platform" where
  "with_mcp_events p = p\<lparr>pf_mcp_events := True\<rparr>"

definition write_message :: "bytes \<Rightarrow> ('b, 's) platform \<Rightarrow> bool \<times> ('b, 's) platform" where
  "write_message message p =
     (case chan_put message (pf_outbound p) of (ok, q) \<Rightarrow> (ok, p\<lparr>pf_outbound := q\<rparr>))"

definition take_inbound :: "('b, 's) platform \<Rightarrow> (panic, ('b, 's) platform) result" where
  "take_inbound p = (if pf_inbound p then Inr (p\<lparr>pf_inbound := False\<rparr>) else Inl Expect_Failed)"

definition persist_peer :: "'b \<Rightarrow> ('b, 's) platform \<Rightarrow> ('b, 's) platform" where
  "persist_peer peer p = p\<lparr>pf_peer := snd (chan_put peer (pf_peer p))\<rparr>"

definition handle_peer_status :: "bytes option \<Rightarrow> peer_status \<Rightarrow> ('b, 's) platform \<Rightarrow> ('b, 's) platform" where
  "handle_peer_status peer status p =
     p\<lparr>pf_status := snd (chan_put status (pf_status p)),
       pf_published := pf_published p @ emit (pf_mcp_events p) (status_event (peer \<noteq> None) status)\<rparr>"

definition handle_inbound_stream :: "'s \<Rightarrow> ('b, 's) platform \<Rightarrow> ('b, 's) platform" where
  "handle_inbound_stream stream p = p\<lparr>pf_streams := snd (chan_put stream (pf_streams p))\<rparr>"

text \<open>What the runtime may call, and a run of such calls; a panic ends it.\<close>

datatype ('b, 's) callback =
    Write_Message bytes
  | Take_Inbound
  | Persist_Peer 'b
  | Peer_Status "bytes option" peer_status
  | Inbound_Stream 's

fun callback_step :: "('b, 's) callback \<Rightarrow> ('b, 's) platform \<Rightarrow> (panic, ('b, 's) platform) result" where
  "callback_step (Write_Message m) p = Inr (snd (write_message m p))"
| "callback_step Take_Inbound p = take_inbound p"
| "callback_step (Persist_Peer b) p = Inr (persist_peer b p)"
| "callback_step (Peer_Status peer st) p = Inr (handle_peer_status peer st p)"
| "callback_step (Inbound_Stream s) p = Inr (handle_inbound_stream s p)"

fun callbacks :: "('b, 's) callback list \<Rightarrow> ('b, 's) platform \<Rightarrow> (panic, ('b, 's) platform) result" where
  "callbacks [] p = Inr p"
| "callbacks (c # cs) p = and_then (callback_step c p) (callbacks cs)"

section \<open>What the callbacks carry\<close>

fun call_messages :: "('b, 's) callback \<Rightarrow> bytes list" where
  "call_messages (Write_Message m) = [m]" | "call_messages _ = []"

fun call_peers :: "('b, 's) callback \<Rightarrow> 'b list" where
  "call_peers (Persist_Peer b) = [b]" | "call_peers _ = []"

fun call_statuses :: "('b, 's) callback \<Rightarrow> (bool \<times> peer_status) list" where
  "call_statuses (Peer_Status peer st) = [(peer \<noteq> None, st)]" | "call_statuses _ = []"

fun call_streams :: "('b, 's) callback \<Rightarrow> 's list" where
  "call_streams (Inbound_Stream s) = [s]" | "call_streams _ = []"

abbreviation carried :: "(('b, 's) callback \<Rightarrow> 'x list) \<Rightarrow> ('b, 's) callback list \<Rightarrow> 'x list" where
  "carried f cs \<equiv> concat (map f cs)"

text \<open>The platform after a run, as a function of what the calls carried.\<close>

definition after_callbacks :: "('b, 's) callback list \<Rightarrow> ('b, 's) platform \<Rightarrow> ('b, 's) platform" where
  "after_callbacks cs p = p\<lparr>
     pf_outbound := fold (\<lambda>m q. snd (chan_put m q)) (carried call_messages cs) (pf_outbound p),
     pf_inbound := (pf_inbound p \<and> Take_Inbound \<notin> set cs),
     pf_status := fold (\<lambda>s q. snd (chan_put s q)) (map snd (carried call_statuses cs)) (pf_status p),
     pf_peer := fold (\<lambda>b q. snd (chan_put b q)) (carried call_peers cs) (pf_peer p),
     pf_streams := fold (\<lambda>s q. snd (chan_put s q)) (carried call_streams cs) (pf_streams p),
     pf_published := pf_published p @
       (if pf_mcp_events p then map (\<lambda>(known, st). status_event known st) (carried call_statuses cs) else [])\<rparr>"

lemma callbacks_result:
  "callbacks cs p =
     (if length (filter ((=) Take_Inbound) cs) \<le> (if pf_inbound p then 1 else 0)
      then Inr (after_callbacks cs p) else Inl Expect_Failed)"
proof (induction cs arbitrary: p)
  case Nil
  then show ?case by (simp add: after_callbacks_def)
next
  case (Cons c cs)
  show ?case
  proof (cases c)
    case Take_Inbound
    then show ?thesis
      using Cons.IH [of "p\<lparr>pf_inbound := False\<rparr>"]
      by (auto simp: take_inbound_def after_callbacks_def filter_empty_conv)
  qed (use Cons.IH in \<open>auto simp: after_callbacks_def write_message_def persist_peer_def
      handle_peer_status_def handle_inbound_stream_def emit_def split_beta\<close>)
qed

section \<open>Serving\<close>

text \<open>
  The loop of serve mode over what \<open>recv\<close> returns: a stream, or \<open>None\<close> once the channel is
  closed.  Every routed stream is served by a task of its own.
\<close>

datatype loop_end = Loop_Waiting | Loop_Returned

fun serve_loop :: "inbound option list \<Rightarrow> inbound list \<times> loop_end" where
  "serve_loop [] = ([], Loop_Waiting)"
| "serve_loop (None # rs) = ([], Loop_Returned)"
| "serve_loop (Some request # rs) =
     (case serve_loop rs of (served, e) \<Rightarrow> (if request = In_Unrouted then served else request # served, e))"

text \<open>A task: the request, the far end of its stream and the times it measures.\<close>

record 'w stream_task =
  tk_request :: inbound
  tk_sink :: "'w sink"
  tk_world :: 'w
  tk_ms :: nat
  tk_secs :: f64

definition task_events :: "(bytes \<Rightarrow> bytes) \<Rightarrow> bool \<Rightarrow> 'w stream_task \<Rightarrow> backend_event list" where
  "task_events sha256 events t =
     (case handle_inbound sha256 (tk_sink t) events (tk_ms t) (tk_secs t) (tk_request t) (tk_world t) of
        Some (Completed es, _) \<Rightarrow> es | _ \<Rightarrow> [])"

text \<open>The chat lines among the requests.\<close>

fun chat_request :: "inbound \<Rightarrow> chat_entry list" where
  "chat_request (In_Chat m) = [\<lparr>ce_direction = Device_To_Backend, ce_text = m\<rparr>]"
| "chat_request _ = []"

lemma serve_loop_served: "fst (serve_loop (map Some requests @ rs)) =
    filter (\<lambda>r. r \<noteq> In_Unrouted) requests @ fst (serve_loop rs)"
  by (induction requests) (simp_all add: split_beta)

lemma serve_loop_end: "snd (serve_loop rs) = (if None \<in> set rs then Loop_Returned else Loop_Waiting)"
  by (induction rs rule: serve_loop.induct) (simp_all add: split_beta)

lemma task_chat: "concat (map chat_of (task_events sha256 True t)) = chat_request (tk_request t)"
  by (cases "tk_request t")
    (auto simp: task_events_def handle_inbound_def handle_echo_def handle_benchmark_def handle_download_def
      handle_exchange_rate_def handle_history_def handle_chat_def emit_def Let_def
      split: prod.split bool.split sum.split)

lemma task_silent: "task_events sha256 False t = []"
  by (cases "tk_request t")
    (auto simp: task_events_def handle_inbound_def handle_echo_def handle_benchmark_def handle_download_def
      handle_exchange_rate_def handle_history_def handle_chat_def emit_def Let_def
      split: prod.split bool.split sum.split)

lemma mset_concat_map: "mset (concat (map f xs)) = sum_mset (image_mset (mset \<circ> f) (mset xs))"
  by (induction xs) simp_all

section \<open>Properties\<close>

text \<open>C18. The platform loses nothing and confuses nothing: after any calls of the runtime each channel
  holds what the calls of its kind carried, in order, and every status was also published when the
  platform carries the event broadcast and nothing was otherwise; the only panic is taking the
  inbound receiver a second time.\<close>

theorem platform_delivers:
  "callbacks cs ((if mcp then with_mcp_events else (\<lambda>p. p)) new_platform) =
     (if length (filter ((=) Take_Inbound) cs) \<le> 1 then Inr
        \<lparr>pf_outbound = \<lparr>queued = carried call_messages cs, receiver = True\<rparr>,
         pf_inbound = (Take_Inbound \<notin> set cs),
         pf_status = \<lparr>queued = map snd (carried call_statuses cs), receiver = True\<rparr>,
         pf_peer = \<lparr>queued = carried call_peers cs, receiver = True\<rparr>,
         pf_streams = \<lparr>queued = carried call_streams cs, receiver = True\<rparr>,
         pf_mcp_events = mcp,
         pf_published = (if mcp then map (\<lambda>(known, st). status_event known st) (carried call_statuses cs) else [])\<rparr>
      else Inl Expect_Failed)"
proof -
  have chan: "fold (\<lambda>a q. snd (chan_put a q)) as new_chan = \<lparr>queued = as, receiver = True\<rparr>" for as
  proof -
    have "queued (fold (\<lambda>a q. snd (chan_put a q)) as new_chan) = as"
      "receiver (fold (\<lambda>a q. snd (chan_put a q)) as new_chan)"
      using queue.items_fold [of as new_chan] queue.alive_fold [of as new_chan] by (simp_all add: new_chan_def)
    then show ?thesis by (metis (full_types) chan.surjective unit.exhaust)
  qed
  show ?thesis
    unfolding callbacks_result
    by (simp add: after_callbacks_def new_platform_def with_mcp_events_def chan)
qed

lemma last_status_filter:
  "last_status es s0 = last_status (filter (\<lambda>e. status_of e \<noteq> None) es) s0"
  by (induction es arbitrary: s0) (auto simp: last_status_def split: option.splits)

text \<open>The snapshot that a run of reported statuses leaves.\<close>

definition shown_status :: "(bool \<times> peer_status) list \<Rightarrow> status_snapshot" where
  "shown_status reports = (case rev reports of
     [] \<Rightarrow> \<lparr>peer_status_of = None, bt_connected = False, peer_known = False\<rparr>
   | (known, st) # _ \<Rightarrow>
       \<lparr>peer_status_of = Some st, bt_connected = (st = Connected \<or> st = Initiator), peer_known = known\<rparr>)"

lemma last_status_shown:
  "last_status (map (\<lambda>(known, st). status_event known st) reports) (snapshot mcp_view_start) = shown_status reports"
  by (induction reports rule: rev_induct)
    (auto simp: last_status_def shown_status_def status_event_def mcp_view_start_def)

text \<open>C15. The status tool follows what the runtime reports after the recorder has subscribed: whatever
  chats, echoes and downloads are reported in between, as long as the recorder keeps up it shows the
  last of these statuses, with the link up exactly in the states Connected and Initiator and the
  peer known exactly if it was named.  What was reported before is lost to it, although the
  start-up wait, which \<open>run\<close> leaves before it starts the recorder, succeeds exactly if Connected
  is among all the reports.\<close>

theorem session_status_follows:
  assumes "callbacks (before @ after) (with_mcp_events new_platform) = Inr p"
    and "filter (\<lambda>e. status_of e \<noteq> None) es = drop (length (carried call_statuses before)) (pf_published p)"
  shows "tool_session_status env (event_recorder (map Received es) mcp_view_start) =
      (Inr (pretty env (status_json (shown_status (carried call_statuses after)))), [])
    \<and> (await_status Connected (queued (pf_status p)) closes = Reached \<longleftrightarrow>
         Connected \<in> snd ` set (carried call_statuses before @ carried call_statuses after))"
proof -
  have p: "pf_published p = map (\<lambda>(known, st). status_event known st)
        (carried call_statuses before @ carried call_statuses after)"
      "queued (pf_status p) = map snd (carried call_statuses before @ carried call_statuses after)"
    using assms(1) queue.items_fold [of "map snd (carried call_statuses before @ carried call_statuses after)"
        "pf_status (with_mcp_events new_platform)"]
    by (auto simp: callbacks_result after_callbacks_def with_mcp_events_def new_platform_def new_chan_def
        split: if_splits)
  have "snapshot (event_recorder (map Received es) mcp_view_start) = last_status es (snapshot mcp_view_start)"
    by (rule recorder_view)
  also have "\<dots> = last_status (map (\<lambda>(known, st). status_event known st) (carried call_statuses after))
      (snapshot mcp_view_start)"
    by (subst last_status_filter) (simp add: assms(2) p(1) del: not_None_eq)
  finally show ?thesis
    by (simp add: tool_session_status_def await_reached p(2) last_status_shown del: set_append) auto
qed

text \<open>
  The device pairs, and the recorder is started: the wait has seen Connected, while the tool, with
  nothing reported since, says that the link is down.
\<close>

theorem session_status_follows_witness:
  "\<exists>p. callbacks [Take_Inbound, Peer_Status None Initiator, Persist_Peer (), Peer_Status (Some [1]) Connected,
        Inbound_Stream ()] (with_mcp_events new_platform) = Inr p
    \<and> await_status Connected (queued (pf_status p)) False = Reached
    \<and> tool_session_status willing_env (event_recorder (map Received [Chat_Received ''hi'']) mcp_view_start) =
        (Inr (pretty willing_env (status_json
           \<lparr>peer_status_of = None, bt_connected = False, peer_known = False\<rparr>)), [])"
proof -
  let ?before = "[Take_Inbound, Peer_Status None Initiator, Persist_Peer (), Peer_Status (Some [1]) Connected]"
  let ?after = "[Inbound_Stream ()]"
  obtain p where run: "callbacks (?before @ ?after) (with_mcp_events new_platform) = Inr p"
    and pub: "pf_published p = [Status_Changed Initiator True False, Status_Changed Connected True True]"
    by (simp add: take_inbound_def with_mcp_events_def new_platform_def handle_peer_status_def
        persist_peer_def handle_inbound_stream_def emit_def status_event_def)
  have "filter (\<lambda>e. status_of e \<noteq> None) [Chat_Received ''hi''] =
      drop (length (carried call_statuses ?before)) (pf_published p)"
    by (simp add: pub)
  from session_status_follows [OF run this, of willing_env False] run show ?thesis
    by (intro exI [of _ p]) (simp add: shown_status_def)
qed

text \<open>C14. A chat the device sends reaches the client's history: whatever else the device asks for, in
  whatever order the tasks of its streams report, and whichever of their operations fail, as long
  as the recorder keeps up and no more than 512 lines are sent, the history consists of exactly the
  lines of the chat requests received before the channel closed, each once, as coming from the
  device; and without the event broadcast the tasks report nothing.\<close>

theorem device_chats_recorded:
  assumes "map tk_request tasks = fst (serve_loop (map Some requests @ rs))" "rs = [] \<or> hd rs = None"
    and "mset es = mset (concat (map (task_events sha256 True) tasks))"
    and "length (concat (map chat_request requests)) \<le> 512"
  shows "mset (history (event_recorder (map Received es) mcp_view_start)) = mset (concat (map chat_request requests))
    \<and> concat (map (task_events sha256 False) tasks) = []"
proof -
  have served: "map tk_request tasks = filter (\<lambda>r. r \<noteq> In_Unrouted) requests"
  proof -
    have "fst (serve_loop rs) = []" using assms(2) by (cases rs) auto
    then show ?thesis using assms(1) by (simp add: serve_loop_served)
  qed
  have "chat_request r = []" if "r = In_Unrouted" for r using that by simp
  then have routed: "concat (map chat_request (filter (\<lambda>r. r \<noteq> In_Unrouted) requests)) = concat (map chat_request requests)"
    by (induction requests) auto
  have "concat (map chat_of (concat (map (task_events sha256 True) ts))) = concat (map chat_request (map tk_request ts))"
    for ts :: "'a stream_task list"
    by (induction ts) (simp_all add: task_chat)
  then have "concat (map chat_of (concat (map (task_events sha256 True) tasks))) = concat (map chat_request requests)"
    by (simp only: served routed)
  then have chats: "mset (concat (map chat_of es)) = mset (concat (map chat_request requests))"
    using assms(3) by (metis mset_concat_map)
  then have "length (concat (map chat_of es)) \<le> 512" using assms(4) by (metis size_mset)
  then have "history (event_recorder (map Received es) mcp_view_start) = concat (map chat_of es)"
    by (simp add: recorder_view)
  with chats show ?thesis by (simp add: task_silent)
qed

text \<open>Two chats and a benchmark; the tasks finish in the opposite order, and no response gets through.\<close>

theorem device_chats_recorded_witness:
  "mset (history (event_recorder (map Received [Chat_Received ''b'', Chat_Received ''a'']) mcp_view_start)) =
     {#\<lparr>ce_direction = Device_To_Backend, ce_text = ''a''\<rparr>, \<lparr>ce_direction = Device_To_Backend, ce_text = ''b''\<rparr>#}"
proof -
  let ?sink = "\<lambda>(_ :: stream_op) (w :: unit). (False, w)"
  let ?task = "\<lambda>r. \<lparr>tk_request = r, tk_sink = ?sink, tk_world = (), tk_ms = 0, tk_secs = Finite 0\<rparr>"
  let ?requests = "[In_Chat ''a'', In_Benchmark 1, In_Unrouted, In_Chat ''b'']"
  let ?tasks = "map ?task [In_Chat ''a'', In_Benchmark 1, In_Chat ''b'']"
  have "map tk_request ?tasks = fst (serve_loop (map Some ?requests @ [None]))" by simp
  moreover have "[None :: inbound option] = [] \<or> hd [None :: inbound option] = None" by simp
  moreover have "mset [Chat_Received ''b'', Chat_Received ''a''] = mset (concat (map (task_events id True) ?tasks))"
    by (simp add: task_events_def handle_inbound_def handle_chat_def handle_benchmark_def emit_def
        benchmark_loop.simps Let_def)
  moreover have "length (concat (map chat_request ?requests)) \<le> 512" by simp
  ultimately have "mset (history (event_recorder (map Received [Chat_Received ''b'', Chat_Received ''a''])
      mcp_view_start)) = mset (concat (map chat_request ?requests))"
    by (rule device_chats_recorded [THEN conjunct1])
  then show ?thesis by (simp del: event_recorder.simps record_event.simps)
qed

end
