(* ===== verification/Backend_Main.thy ===== *)
theory Backend_Main
  imports Backend_Platform
begin

text \<open>
  The whole of \<open>run\<close> (\<^verbatim>\<open>backend/src/lib.rs\<close>): arguments, start-up, and then either
  the serving daemon with the tasks it spawns or the two client calls; and the status the process
  exits with.
\<close>

section \<open>Serving\<close>

text \<open>The tasks of serve mode beside the streams' own, in the order they are spawned.\<close>

datatype service =
    Chat_Input string
  | Event_Recorder
  | Auto_Reply
  | Mcp_Serve string

definition CHAT_INPUT_ADDR :: string where "CHAT_INPUT_ADDR = ''127.0.0.1:9999''"

text \<open>\<open>is_addr\<close>: whether the text is a socket address; one that is none makes \<open>run\<close> panic.\<close>

definition serve_services :: "(string \<Rightarrow> bool) \<Rightarrow> backend_config \<Rightarrow> service list \<times> bool" where
  "serve_services is_addr cfg =
     (case cfg_mcp cfg of
        None \<Rightarrow> ([Chat_Input CHAT_INPUT_ADDR], True)
      | Some a \<Rightarrow>
          (if is_addr a
           then ([Chat_Input CHAT_INPUT_ADDR, Event_Recorder] @ (if cfg_auto_reply cfg then [Auto_Reply] else [])
                   @ [Mcp_Serve a], True)
           else ([Chat_Input CHAT_INPUT_ADDR], False)))"

section \<open>The run\<close>

text \<open>What surrounds a run.\<close>

record ('i, 'b) backend_world =
  bw_codec :: "('i, 'b) peer_codec"
  bw_format :: invite_format
  bw_hex :: "string \<Rightarrow> bytes option"
  bw_startup :: "'i startup_world"
  bw_feed :: "'b session_feed"
  bw_is_addr :: "string \<Rightarrow> bool"
  bw_echo :: "string \<Rightarrow> string option"
  bw_subscribe :: "u32 \<Rightarrow> bytes option list option"
  bw_streams :: "inbound option list"

datatype run_result =
    Args_Panic arg_panic
  | Startup_Stopped startup_stop
  | Mcp_Address_Panic
  | Served loop_end
  | Client_Ran run_end

record ('i, 'b) run_report =
  rr_result :: run_result
  rr_disk :: disk
  rr_actions :: "('i, 'b) startup_action list"
  rr_services :: "service list"
  rr_served :: "inbound list"

definition backend_run :: "('i, 'b) backend_world \<Rightarrow> string list \<Rightarrow> disk \<Rightarrow> ('i, 'b) run_report" where
  "backend_run bw args d =
     (case parse_args args default_config of
        Inl e \<Rightarrow> \<lparr>rr_result = Args_Panic e, rr_disk = d, rr_actions = [], rr_services = [], rr_served = []\<rparr>
      | Inr cfg \<Rightarrow>
          (case start_session (bw_codec bw) (bw_format bw) (bw_hex bw) (bw_startup bw) (bw_feed bw) cfg d of
             (Inl e, d', acts) \<Rightarrow>
               \<lparr>rr_result = Startup_Stopped e, rr_disk = d', rr_actions = acts, rr_services = [], rr_served = []\<rparr>
           | (Inr _, d', acts) \<Rightarrow>
               (case after_session cfg (bw_echo bw) (bw_subscribe bw) of
                  Serving \<Rightarrow>
                    (case serve_services (bw_is_addr bw) cfg of
                       (svcs, False) \<Rightarrow> \<lparr>rr_result = Mcp_Address_Panic, rr_disk = d', rr_actions = acts,
                          rr_services = svcs, rr_served = []\<rparr>
                     | (svcs, True) \<Rightarrow>
                         (case serve_loop (bw_streams bw) of
                            (served, e) \<Rightarrow> \<lparr>rr_result = Served e, rr_disk = d', rr_actions = acts,
                              rr_services = svcs, rr_served = served\<rparr>))
                | e \<Rightarrow> \<lparr>rr_result = Client_Ran e, rr_disk = d', rr_actions = acts,
                          rr_services = [], rr_served = []\<rparr>)))"

text \<open>
  The exit status: 0 on return, 1 by \<open>process::exit\<close>, 101 by a panic of the main task; none
  while the backend serves.
\<close>

definition backend_exit :: "run_result \<Rightarrow> nat option" where
  "backend_exit r = (case r of
     Args_Panic _ \<Rightarrow> Some 101
   | Startup_Stopped Handshake_Timeout \<Rightarrow> Some 1
   | Startup_Stopped _ \<Rightarrow> Some 101
   | Mcp_Address_Panic \<Rightarrow> Some 101
   | Served Loop_Returned \<Rightarrow> Some 0
   | Served Loop_Waiting \<Rightarrow> None
   | Client_Ran Serving \<Rightarrow> None
   | Client_Ran (Client_Done _) \<Rightarrow> Some 0
   | Client_Ran (Ended Client_Ok) \<Rightarrow> Some 0
   | Client_Ran (Ended Client_Exit_1) \<Rightarrow> Some 1
   | Client_Ran (Ended (Client_Panic _)) \<Rightarrow> Some 101)"

section \<open>Properties\<close>

definition ECHO_GREETING :: string where "ECHO_GREETING = ''hello from the backend over QL v2''"

lemma run_echo_end:
  "run_echo echo = (case echo ECHO_GREETING of
     None \<Rightarrow> Client_Exit_1 | Some r \<Rightarrow> if r = ECHO_GREETING then Client_Ok else Client_Panic Assertion_Failed)"
  unfolding run_echo_def ECHO_GREETING_def Let_def by (rule refl)

lemma after_session_cases:
  "after_session cfg echo subscribe =
     (if cfg_serve cfg then Serving
      else if echo ECHO_GREETING = Some ECHO_GREETING then Client_Done (run_benchmark subscribe (cfg_bench_len cfg))
      else Ended (run_echo echo))"
  by (auto simp: after_session_def run_echo_end split: option.split)

text \<open>The session of a run, as far as it got one.\<close>

definition run_session :: "('i, 'b) backend_world \<Rightarrow> backend_config \<Rightarrow> disk \<Rightarrow>
    (startup_stop, 'i \<times> bool) result \<times> disk \<times> ('i, 'b) startup_action list" where
  "run_session bw cfg d =
     start_session (bw_codec bw) (bw_format bw) (bw_hex bw) (bw_startup bw) (bw_feed bw) cfg d"

lemma backend_run_established:
  assumes "parse_args args default_config = Inr cfg" "run_session bw cfg d = (Inr (i, ik), d', acts)"
  shows "backend_run bw args d =
     (if cfg_serve cfg then
        (if snd (serve_services (bw_is_addr bw) cfg)
         then \<lparr>rr_result = Served (snd (serve_loop (bw_streams bw))), rr_disk = d', rr_actions = acts,
            rr_services = fst (serve_services (bw_is_addr bw) cfg), rr_served = fst (serve_loop (bw_streams bw))\<rparr>
         else \<lparr>rr_result = Mcp_Address_Panic, rr_disk = d', rr_actions = acts,
            rr_services = fst (serve_services (bw_is_addr bw) cfg), rr_served = []\<rparr>)
      else \<lparr>rr_result = Client_Ran (after_session cfg (bw_echo bw) (bw_subscribe bw)), rr_disk = d',
            rr_actions = acts, rr_services = [], rr_served = []\<rparr>)"
  using assms
  by (auto simp: backend_run_def run_session_def after_session_cases split_beta split: prod.split bool.split)

lemma startup_exit: "backend_exit (Startup_Stopped e) \<noteq> Some 0"
  by (cases e) (simp_all add: backend_exit_def)

lemma client_exit:
  "\<not> cfg_serve cfg \<Longrightarrow> backend_exit (Client_Ran (after_session cfg echo subscribe)) = Some 0 \<longleftrightarrow>
     echo ECHO_GREETING = Some ECHO_GREETING"
  by (auto simp: after_session_cases run_echo_end backend_exit_def split: option.split)

lemma serve_services_ok: "snd (serve_services is_addr cfg) \<longleftrightarrow> (case cfg_mcp cfg of None \<Rightarrow> True | Some a \<Rightarrow> is_addr a)"
  by (simp add: serve_services_def split: option.split)

text \<open>C27. The backend exits with success exactly if its arguments parse, its session was established
  and then either it serves, its MCP address if any is one, and the device's stream channel was
  closed, or it is a client whose echo came back unchanged; the benchmark does not count: the exit
  status is the same whether it completes, breaks off or cannot even be requested.\<close>

theorem backend_exit_zero:
  "backend_exit (rr_result (backend_run bw args d)) = Some 0 \<longleftrightarrow>
     (\<exists>cfg s d' acts. parse_args args default_config = Inr cfg \<and> run_session bw cfg d = (Inr s, d', acts)
        \<and> (if cfg_serve cfg
           then (case cfg_mcp cfg of None \<Rightarrow> True | Some a \<Rightarrow> bw_is_addr bw a) \<and> None \<in> set (bw_streams bw)
           else bw_echo bw ECHO_GREETING = Some ECHO_GREETING))"
proof (cases "parse_args args default_config")
  case (Inl e)
  then show ?thesis by (simp add: backend_run_def backend_exit_def)
next
  case cfg: (Inr cfg)
  obtain r d' acts where run: "run_session bw cfg d = (r, d', acts)" by (metis prod_cases3)
  show ?thesis
  proof (cases r)
    case (Inl e)
    then have "rr_result (backend_run bw args d) = Startup_Stopped e"
      using cfg run by (simp add: backend_run_def run_session_def)
    with startup_exit [of e] show ?thesis using cfg run Inl by simp
  next
    case (Inr s)
    obtain i ik where s: "s = (i, ik)" by (cases s)
    note est = backend_run_established [OF cfg run [unfolded Inr s]]
    have "backend_exit (Served (snd (serve_loop (bw_streams bw)))) = Some 0 \<longleftrightarrow> None \<in> set (bw_streams bw)"
      by (simp add: serve_loop_end backend_exit_def)
    moreover have "backend_exit Mcp_Address_Panic \<noteq> Some 0" by (simp add: backend_exit_def)
    ultimately show ?thesis
      using cfg run Inr s
      by (simp add: est client_exit serve_services_ok)
  qed
qed

end
