(* ===== verification/Fl_Main.thy ===== *)
theory Fl_Main
  imports Piv Fido Logs Ccid_Inspect Relay Backend_Main
begin








section \<open>Properties\<close>












end
