(* ===== verification/Spec2Isabelle.thy ===== *)
theory Spec2Isabelle
  imports Piv Fido Bridge V1_Client Logs Ccid_Inspect Relay Mcp_Broadcast Backend_Main Fl_Main
begin

text \<open>
  A model of foundation-lab, a laboratory for QuantumLink version 2: the \<open>fl\<close> command with its
  test harnesses for a Passport Prime (PIV, FIDO, descriptors, logs), the backend that pairs with
  the device and serves it, the MCP server inside the backend, the relay between device and
  backend, and the version 1 client.  Everything is translated from the Rust sources under
  \<^verbatim>\<open>src/\<close>; code of other crates is a parameter of the definitions that call it.

  \<^bold>\<open>How the parts interact.\<close>  The device (or its simulator) speaks length-prefixed frames of
  chunked records over TCP.  The relay copies these bytes between the device's bridge and the
  backend.  The backend's bridge tasks turn records into frames and back; the QL runtime, an
  external library, sits between the bridge and the program and talks to it through the channels of
  \<open>BackendPlatform\<close>.  \<open>run\<close> parses the arguments, pairs or reconnects, saves the
  peer, and then either calls the device twice or serves it: streams the device opens go to the
  handlers of \<open>RouterState\<close>, which publish events.  The event broadcast feeds the recorder
  (history and status), the forwarders of the SSE sessions and the auto-reply loop; the tools of
  the MCP server read the recorder's view and call the device or, by sampling, the client.

  \<^bold>\<open>Theories and sources.\<close>
  \<^item> \<^verbatim>\<open>Lab_Prelude\<close>: machine integers, results, computations on a world, slices,
    big-endian codecs; \<^verbatim>\<open>Rust_Str\<close>: the parts of \<open>str\<close> and \<open>format!\<close>
    that the program uses; \<^verbatim>\<open>Codec\<close>: the locales \<open>prefix_codec\<close> and
    \<open>stream_codec\<close>, interpreted for TLVs (Piv), log records (Logs) and frames (Framing);
    \<^verbatim>\<open>Transition\<close>: reachable states and the locales of their invariants, interpreted for
    the relay, the event broadcast and three times the MCP sessions.
  \<^item> \<^verbatim>\<open>Piv\<close> (\<^verbatim>\<open>fl/src/piv.rs\<close>): TLV reader, APDUs, GET RESPONSE chaining, the sequence and
    reader selection.
  \<^item> \<^verbatim>\<open>Fido\<close> (\<^verbatim>\<open>fl/src/fido.rs\<close>): CTAPHID fragmentation and reassembly, U2F messages,
    the presence poll, the sequence.
  \<^item> \<^verbatim>\<open>Logs\<close> (\<^verbatim>\<open>fl/src/logs.rs\<close>): connecting, frames, records, limit, deadline, reconnection.
  \<^item> \<^verbatim>\<open>Ccid_Inspect\<close> (\<^verbatim>\<open>fl/src/ccid_inspect.rs\<close>): the listing and the functional descriptor.
  \<^item> \<^verbatim>\<open>Relay\<close> (\<^verbatim>\<open>relay/src/lib.rs\<close>): the accept loop and concurrent links as a step relation.
  \<^item> \<^verbatim>\<open>Framing\<close>: the wire format and the contract of the chunking library; \<^verbatim>\<open>Bridge\<close>
    (\<^verbatim>\<open>backend/src/lib.rs\<close>, \<open>spawn_tcp_btp_bridge\<close>): the sender and the receiver task;
    \<^verbatim>\<open>V1_Client\<close> (\<^verbatim>\<open>v1-client/src\<close>): transport, pairing session, configuration.
  \<^item> \<^verbatim>\<open>Backend_Session\<close> (\<^verbatim>\<open>backend/src/lib.rs\<close>): arguments, state file, invite, start-up;
    \<^verbatim>\<open>Backend_Serve\<close>: the RPC handlers, the chat input, the client calls;
    \<^verbatim>\<open>Backend_Platform\<close>: the platform's channels and callbacks and the serve loop;
    \<^verbatim>\<open>Backend_Main\<close>: the whole of \<open>run\<close> and its exit status.
  \<^item> \<^verbatim>\<open>Backend_Events\<close>, \<^verbatim>\<open>Mcp_State\<close>, \<^verbatim>\<open>Mcp_Broadcast\<close>,
    \<^verbatim>\<open>Mcp_Sampling\<close>, \<^verbatim>\<open>Mcp_Server\<close> (\<^verbatim>\<open>backend/src/mcp.rs\<close>): events and their
    JSON; recorder, forwarder and auto-reply; the broadcast with its recorder as interleaving tasks;
    sessions and sampling calls as a transition system; the POST endpoint, dispatch and tools.
  \<^item> \<^verbatim>\<open>Fl_Main\<close> (\<^verbatim>\<open>fl/src/main.rs\<close>): the dispatch of the subcommands and the exit status.
  \<^item> This theory: what spans the two transports.

  \<^bold>\<open>State.\<close>  Structs are records with the source's fields, enums are datatypes.  The state of
  the outside world is passed explicitly (a card, a HID device, a TCP half, a disk); an asynchronous
  task is a function of what its awaits return, or, where tasks share state, a set of steps cut at
  the awaits (\<open>mcp_step\<close>, \<open>bus_step\<close>, \<open>relay_step\<close>) that interleave freely.  An \<open>anyhow\<close> error or a
  panic is a value of a sum type.

  \<^bold>\<open>What the lemmas show.\<close>  Codecs: round trips and exactness (TLV, frames, records, reports,
  state file, invite).  Harnesses: success implies a verified signature, conforming devices are
  accepted, which devices make a loop run for ever or panic.  Bridge and client: whole streams are
  the reassembly of their frames, and both transports agree.  Backend: pairing once is enough,
  the state file is safe, handlers perform their scripts, the platform delivers everything, exit
  statuses.  MCP: the invariant of the reachable states (ids, pending table, replies), progress,
  typing of the streams, simulation of every POST by steps, and the refinement of the tools to the
  event history.

  \<^bold>\<open>Bounds and termination.\<close>  There is no fuel.  Loops that shrink their input are functions with a
  measure; loops that a device or a peer can keep running (\<open>transmit_loop\<close>, \<open>read_loop\<close>,
  \<open>presence_loop\<close>, \<open>recv_envelope\<close>, \<open>pairing_loop\<close>) are partial functions into
  option, and that they return, or do not, is proved.  The log reader, the serve loop and the
  recorder run over finite lists of what their calls return; a list that ends without an end event
  is a program still running.  The 64-bit request ids of sampling wrap, so that the invariant is
  stated for fewer than 2 to the 64 calls.

  \<^bold>\<open>Assumptions on other code.\<close>  The contracts are named in the statements that need them:
  \<open>btp_law\<close> (chunks reassemble), \<open>copy_law\<close> (\<open>copy_bidirectional\<close> forwards bytes in
  order), \<open>codec_law\<close> (the wire codecs of identity and bundle).  Each has an instance in a
  witness.

  \<^bold>\<open>Not modelled.\<close>  The QL runtime, its cryptography and its RPC encoding; \<open>btp\<close>; the HTTP
  server and the SSE keep-alive; \<open>clap\<close>; the texts printed to the console; rounding of floating
  point; the time a task takes, except where a deadline or a timeout depends on it.  All features
  are taken as built in.  The cryptographic callbacks of \<open>BackendPlatform\<close> only pass their
  arguments on.  An overflow of the deadline of the log reader for a timeout near 2 to the 64 seconds,
  where \<open>Instant\<close> panics, is left out.
\<close>

section \<open>The two transports\<close>



end
